theory Spec2Isabelle
  imports Main "HOL-Library.Word"
begin

unbundle bit_operations_syntax

type_synonym U32 = "32 word"

section \<open>Frame counting by callback (countImagesViaCallback.cpp)\<close>

text \<open>
  The globals shared between the main thread and the frame callback.  \<open>U32\<close> is a 32-bit
  word.  \<open>gLostFrameCount\<close> is an \<open>int\<close>: it is kept as its 32-bit two's complement
  pattern and read with \<open>sint\<close>; \<open>gLostFrameCount += frameNumDelta\<close> adds a \<open>U32\<close> to it,
  which the language does in unsigned arithmetic and converts back, and \<open>gLostFrameCount--\<close>
  is taken to wrap like the addition does.
\<close>

record cb_globals =
  gFrameCount :: U32
  gLostFrameCount :: U32
  gExpectedFrameNum :: U32
  gReceivedFirstFrame :: bool

text \<open>The initialisers of the globals; \<open>gExpectedFrameNum\<close> has none and is zero-initialised.\<close>

definition cb_initial :: cb_globals where
  "cb_initial = \<lparr> gFrameCount = 0, gLostFrameCount = 0, gExpectedFrameNum = 0,
                  gReceivedFirstFrame = False \<rparr>"

text \<open>
  \<open>FrameCallbackFunction\<close>, between \<open>pthread_mutex_lock\<close> and \<open>pthread_mutex_unlock\<close>; the
  only field of the frame descriptor it reads is \<open>uFrameNumber\<close>.
\<close>

definition FrameCallbackFunction :: "U32 \<Rightarrow> cb_globals \<Rightarrow> cb_globals" where
  "FrameCallbackFunction uFrameNumber g =
    (let g1 = (if \<not> gReceivedFirstFrame g
               then g\<lparr> gReceivedFirstFrame := True, gExpectedFrameNum := uFrameNumber \<rparr>
               else g);
         g2 = g1\<lparr> gFrameCount := gFrameCount g1 + 1 \<rparr>
     in if uFrameNumber < gExpectedFrameNum g2
        then g2\<lparr> gLostFrameCount := gLostFrameCount g2 - 1 \<rparr>
        else (let frameNumDelta = uFrameNumber - gExpectedFrameNum g2
              in g2\<lparr> gLostFrameCount := gLostFrameCount g2 + frameNumDelta,
                     gExpectedFrameNum := uFrameNumber + 1 \<rparr>))"

text \<open>The callback invoked once for each frame number of a list, in order.\<close>

fun callbacks :: "U32 list \<Rightarrow> cb_globals \<Rightarrow> cb_globals" where
  "callbacks [] g = g"
| "callbacks (n # ns) g = callbacks ns (FrameCallbackFunction n g)"

section \<open>The image writer (imageWriter.cpp)\<close>

subsection \<open>Constants and data\<close>

definition BUFFER_SIZE :: nat where
  "BUFFER_SIZE = 2 ^ 4"

definition BUFFER_SIZE_MASK :: U32 where
  "BUFFER_SIZE_MASK = 2 ^ 4 - 1"

definition MAX_IMAGE_SIZE :: U32 where
  "MAX_IMAGE_SIZE = 25 * 1024 * 1024"

definition MAX_IMAGES :: U32 where
  "MAX_IMAGES = 32"

datatype RUNTIME_STATUS =
  STATUS_RUNNING | STATUS_USER_STOPPED | STATUS_SINK_OVERRUN | STATUS_ERROR

text \<open>
  The fields of the SDK's frame descriptor that the program reads.  \<open>Roi.fWidth\<close> and
  \<open>Roi.fHeight\<close> are C floats; their type is left open as \<open>'f\<close>, and the one expression
  that computes with them, \<open>(U32) (fWidth * fHeight)\<close>, is the parameter \<open>area\<close> of the
  functions below.
\<close>

record 'f FRAME_DESC =
  uFrameNumber :: U32
  Roi_fWidth :: 'f
  Roi_fHeight :: 'f

text \<open>
  The calls the program makes to the device, the output file and the terminal, with what
  they returned.  A frame buffer of the pool is named by its index in \<open>s_frames\<close>.
  \<^item> \<open>GetNextFrame p size r\<close>: \<open>PxLGetNextFrame\<close> into buffer \<open>p\<close> with buffer size \<open>size\<close>;
    \<open>r\<close> is \<open>Inl rc\<close> for a return code that is not \<open>API_SUCCESS\<close>, or \<open>Inr d\<close> for success
    with the descriptor \<open>d\<close> it filled in.
  \<^item> \<open>Fwrite p count n\<close>: \<open>fwrite\<close> of \<open>count\<close> bytes of buffer \<open>p\<close>, of which \<open>n\<close> were written.
  \<^item> \<open>Printf fmt args\<close>: a message, by its format and numeric arguments.
\<close>

datatype 'f io =
    GetNextFrame U32 U32 "U32 + 'f FRAME_DESC"
  | Fopen bool
  | Fwrite U32 U32 nat
  | Fseek_start
  | Fclose
  | Printf string "U32 list"

text \<open>
  Where each thread stands.  \<open>main\<close>: the three camera calls, the launch of the two threads,
  the check after the first half second, the polling loop (its condition, then \<open>kbhit\<close>),
  the stop of the stream, \<open>Cleanup\<close>, and the return from \<open>main\<close> with the exit code of the
  process.  \<open>sourceThread\<close>: not started, the initial frame, the loop condition, the
  blocking acquire with the sequence check, the queue check, the push, finished.
  \<open>sinkThread\<close>: not started, \<open>fopen\<close>, the loop condition, the pop, the write with the
  rewind, finished.
\<close>

datatype main_pc =
  M_Enumerate | M_Initialize | M_StartStream | M_Launch | M_Settle | M_Poll | M_Kbhit
  | M_StopStream | M_Cleanup | M_Returned int

datatype source_pc =
  Src_Idle | Src_First | Src_While | Src_Acquire | Src_Check | Src_Push | Src_Exit

datatype sink_pc =
  Snk_Idle | Snk_Open | Snk_While | Snk_Pop | Snk_Write | Snk_Exit

text \<open>
  The globals of the program, the locals of the threads that live across steps, the
  position and size of the output file since it was opened, and the calls made so far
  (newest first).
\<close>

record 'f iw_state =
  s_status :: RUNTIME_STATUS
  s_tail :: U32
  s_frameQueue :: "U32 list"
  s_hCamera :: bool
  s_expectedFrameNumber :: U32
  s_frameSize :: U32
  main_at :: main_pc
  source_at :: source_pc
  source_pFrame :: U32
  sink_at :: sink_pc
  sink_pFrame :: U32
  numFramesInFile :: U32
  file_pos :: nat
  file_size :: nat
  calls :: "'f io list"

text \<open>
  The state when \<open>main\<close> is entered: the statics are zero-initialised (\<open>STATUS_RUNNING\<close> is
  0) except \<open>s_frameSize\<close>, and the pool has been allocated with \<open>s_tail = 0\<close>.
\<close>

definition iw_initial :: "'f iw_state" where
  "iw_initial =
    \<lparr> s_status = STATUS_RUNNING, s_tail = 0, s_frameQueue = [], s_hCamera = False,
      s_expectedFrameNumber = 0, s_frameSize = MAX_IMAGE_SIZE,
      main_at = M_Enumerate, source_at = Src_Idle, source_pFrame = 0,
      sink_at = Snk_Idle, sink_pFrame = 0, numFramesInFile = 0,
      file_pos = 0, file_size = 0, calls = [] \<rparr>"

subsection \<open>What the environment answers\<close>

text \<open>
  A step of a thread makes at most one call whose result the program does not control;
  the answer comes with the step.  For \<open>main\<close>: whether the camera call succeeded, the
  number of cameras found, whether a key was hit.  For \<open>sourceThread\<close>: the result of
  \<open>PxLGetNextFrame\<close>.  For \<open>sinkThread\<close>: whether \<open>fopen\<close> gave a stream, and the count
  \<open>fwrite\<close> returns (never more than asked for).
\<close>

record main_env =
  api_success :: bool
  numCameras :: U32
  kbhit :: bool

record sink_env =
  fopen_ok :: bool
  fwrite_count :: nat

datatype 'f event =
  Main main_env | Source "U32 + 'f FRAME_DESC" | Sink sink_env

subsection \<open>main\<close>

definition log :: "string \<Rightarrow> U32 list \<Rightarrow> 'f iw_state \<Rightarrow> 'f iw_state" where
  "log fmt args s = s\<lparr> calls := Printf fmt args # calls s \<rparr>"

text \<open>
  \<open>main\<close> has no \<open>return\<close> statement: every path ends by running off its closing brace after
  \<open>Cleanup\<close>, which in C++ returns 0.
\<close>

definition main_step :: "main_env \<Rightarrow> 'f iw_state \<Rightarrow> 'f iw_state" where
  "main_step e s =
    (case main_at s of
       M_Enumerate \<Rightarrow>
         if \<not> api_success e \<or> numCameras e \<noteq> 1
         then (log ''Please ensure there is exactly one Pixelink camera connected'' [] s)
                \<lparr> main_at := M_Cleanup \<rparr>
         else s\<lparr> main_at := M_Initialize \<rparr>
     | M_Initialize \<Rightarrow>
         if \<not> api_success e
         then (log ''Could not initialize the camera'' [] s)\<lparr> main_at := M_Cleanup \<rparr>
         else s\<lparr> s_hCamera := True, main_at := M_StartStream \<rparr>
     | M_StartStream \<Rightarrow>
         if \<not> api_success e
         then (log ''Could not stream the camera'' [] s)\<lparr> main_at := M_Cleanup \<rparr>
         else s\<lparr> main_at := M_Launch \<rparr>
     | M_Launch \<Rightarrow>
         s\<lparr> s_status := STATUS_RUNNING, source_at := Src_First, sink_at := Snk_Open,
            main_at := M_Settle \<rparr>
     | M_Settle \<Rightarrow>
         if s_status s \<noteq> STATUS_RUNNING then s\<lparr> main_at := M_Cleanup \<rparr>
         else (log ''Capturing image data'' [] s)\<lparr> main_at := M_Poll \<rparr>
     | M_Poll \<Rightarrow>
         if s_status s = STATUS_RUNNING then s\<lparr> main_at := M_Kbhit \<rparr>
         else s\<lparr> main_at := M_StopStream \<rparr>
     | M_Kbhit \<Rightarrow>
         if kbhit e then s\<lparr> s_status := STATUS_USER_STOPPED, main_at := M_StopStream \<rparr>
         else s\<lparr> main_at := M_Poll \<rparr>
     | M_StopStream \<Rightarrow> s\<lparr> main_at := M_Cleanup \<rparr>
     | M_Cleanup \<Rightarrow> s\<lparr> main_at := M_Returned 0 \<rparr>
     | M_Returned c \<Rightarrow> s)"

subsection \<open>sourceThread\<close>

definition source_step ::
  "('f \<Rightarrow> 'f \<Rightarrow> U32) \<Rightarrow> U32 + 'f FRAME_DESC \<Rightarrow> 'f iw_state \<Rightarrow> 'f iw_state" where
  "source_step area r s =
    (case source_at s of
       Src_Idle \<Rightarrow> s
     | Src_First \<Rightarrow>
         (let pFrame = s_tail s;
              s1 = s\<lparr> source_pFrame := pFrame,
                      calls := GetNextFrame pFrame MAX_IMAGE_SIZE r # calls s \<rparr>
          in case r of
               Inl rc \<Rightarrow>
                 (log ''Cound not get initial frame'' [] s1)
                   \<lparr> s_status := STATUS_ERROR, source_at := Src_Exit \<rparr>
             | Inr d \<Rightarrow>
                 s1\<lparr> s_expectedFrameNumber := uFrameNumber d + 1,
                     s_frameSize := area (Roi_fWidth d) (Roi_fHeight d),
                     source_at := Src_While \<rparr>)
     | Src_While \<Rightarrow>
         if s_status s = STATUS_RUNNING then s\<lparr> source_at := Src_Acquire \<rparr>
         else s\<lparr> source_at := Src_Exit \<rparr>
     | Src_Acquire \<Rightarrow>
         (let pFrame = s_tail s;
              s1 = s\<lparr> source_pFrame := pFrame,
                      s_tail := (s_tail s + 1) AND BUFFER_SIZE_MASK,
                      calls := GetNextFrame pFrame (s_frameSize s) r # calls s \<rparr>
          in case r of
               Inl rc \<Rightarrow>
                 (log ''Could not get a frame.  RC:0x%08X'' [rc] s1)
                   \<lparr> s_tail := (s_tail s1 - 1) AND BUFFER_SIZE_MASK, source_at := Src_While \<rparr>
             | Inr d \<Rightarrow>
                 (let s2 = (if uFrameNumber d \<noteq> s_expectedFrameNumber s1
                            then log ''Expected frame %d, but got frame %d''
                                   [s_expectedFrameNumber s1, uFrameNumber d] s1
                            else s1)
                  in s2\<lparr> s_expectedFrameNumber := uFrameNumber d + 1,
                         source_at := Src_Check \<rparr>))
     | Src_Check \<Rightarrow>
         if length (s_frameQueue s) \<ge> BUFFER_SIZE - 3
         then (log ''Error -- the Sink cannot keep up with the Source'' [] s)
                \<lparr> s_status := STATUS_SINK_OVERRUN, source_at := Src_Exit \<rparr>
         else s\<lparr> source_at := Src_Push \<rparr>
     | Src_Push \<Rightarrow>
         s\<lparr> s_frameQueue := s_frameQueue s @ [source_pFrame s], source_at := Src_While \<rparr>
     | Src_Exit \<Rightarrow> s)"

subsection \<open>sinkThread\<close>

text \<open>
  When \<open>fopen\<close> fails the thread sets the status and jumps to \<open>Cleanup\<close>, where it calls
  \<open>fclose\<close> on the null stream; the model records the status and ends the thread there.
\<close>

definition sink_step :: "sink_env \<Rightarrow> 'f iw_state \<Rightarrow> 'f iw_state" where
  "sink_step e s =
    (case sink_at s of
       Snk_Idle \<Rightarrow> s
     | Snk_Open \<Rightarrow>
         if \<not> fopen_ok e
         then (log ''Error:  Could not open/create the data file.'' []
                 (s\<lparr> calls := Fopen False # calls s \<rparr>))
                \<lparr> s_status := STATUS_ERROR, sink_at := Snk_Exit \<rparr>
         else s\<lparr> numFramesInFile := 0, file_pos := 0, file_size := 0,
                 calls := Fopen True # calls s, sink_at := Snk_While \<rparr>
     | Snk_While \<Rightarrow>
         if s_status s = STATUS_RUNNING then s\<lparr> sink_at := Snk_Pop \<rparr>
         else s\<lparr> calls := Fclose # calls s, sink_at := Snk_Exit \<rparr>
     | Snk_Pop \<Rightarrow>
         (case s_frameQueue s of
            [] \<Rightarrow> s\<lparr> sink_at := Snk_While \<rparr>
          | p # q \<Rightarrow> s\<lparr> sink_pFrame := p, s_frameQueue := q, sink_at := Snk_Write \<rparr>)
     | Snk_Write \<Rightarrow>
         (let numBytesWritten = min (fwrite_count e) (unat (s_frameSize s));
              s1 = s\<lparr> file_pos := file_pos s + numBytesWritten,
                      file_size := max (file_size s) (file_pos s + numBytesWritten),
                      calls := Fwrite (sink_pFrame s) (s_frameSize s) numBytesWritten # calls s \<rparr>
          in if numBytesWritten \<noteq> unat (s_frameSize s)
             then (let s2 = log ''Error:  Could not write to %d bytes to the data file.''
                              [s_frameSize s] s1
                   in s2\<lparr> s_status := STATUS_ERROR, calls := Fclose # calls s2,
                          sink_at := Snk_Exit \<rparr>)
             else if numFramesInFile s1 + 1 \<ge> MAX_IMAGES
             then s1\<lparr> file_pos := 0, numFramesInFile := 0,
                      calls := Fseek_start # calls s1, sink_at := Snk_While \<rparr>
             else s1\<lparr> numFramesInFile := numFramesInFile s1 + 1, sink_at := Snk_While \<rparr>)
     | Snk_Exit \<Rightarrow> s)"

subsection \<open>The three threads together\<close>

text \<open>
  One step of the process: the scheduler picks a thread, which runs to its next call or
  shared access.  When \<open>main\<close> has returned the process is over and nothing runs.
\<close>

definition returned :: "'f iw_state \<Rightarrow> bool" where
  "returned s = (case main_at s of M_Returned c \<Rightarrow> True | _ \<Rightarrow> False)"

definition step :: "('f \<Rightarrow> 'f \<Rightarrow> U32) \<Rightarrow> 'f event \<Rightarrow> 'f iw_state \<Rightarrow> 'f iw_state" where
  "step area ev s =
    (if returned s then s
     else case ev of
            Main e \<Rightarrow> main_step e s
          | Source r \<Rightarrow> source_step area r s
          | Sink e \<Rightarrow> sink_step e s)"

fun run :: "('f \<Rightarrow> 'f \<Rightarrow> U32) \<Rightarrow> 'f event list \<Rightarrow> 'f iw_state \<Rightarrow> 'f iw_state" where
  "run area [] s = s"
| "run area (ev # evs) s = run area evs (step area ev s)"

subsection \<open>Reading the calls made\<close>

text \<open>The number of times \<open>PxLGetNextFrame\<close> has been called.\<close>

fun acquires :: "'f io list \<Rightarrow> nat" where
  "acquires [] = 0"
| "acquires (GetNextFrame p sz r # cs) = Suc (acquires cs)"
| "acquires (c # cs) = acquires cs"

text \<open>The descriptor of the first frame captured successfully (the list is newest first).\<close>

fun first_frame :: "'f io list \<Rightarrow> 'f FRAME_DESC option" where
  "first_frame [] = None"
| "first_frame (c # cs) =
     (case first_frame cs of
        Some d \<Rightarrow> Some d
      | None \<Rightarrow> (case c of GetNextFrame p sz (Inr d) \<Rightarrow> Some d | _ \<Rightarrow> None))"

text \<open>The number of frames written in full.\<close>

fun frames_written :: "'f io list \<Rightarrow> nat" where
  "frames_written [] = 0"
| "frames_written (Fwrite p count n # cs) =
     (if n = unat count then Suc (frames_written cs) else frames_written cs)"
| "frames_written (c # cs) = frames_written cs"

text \<open>
  Every \<open>fwrite\<close> made was complete; the most recent \<open>fwrite\<close> came short; every \<open>fwrite\<close>
  but the most recent one was complete.
\<close>

fun full_writes :: "'f io list \<Rightarrow> bool" where
  "full_writes [] = True"
| "full_writes (Fwrite p count n # cs) = (n = unat count \<and> full_writes cs)"
| "full_writes (c # cs) = full_writes cs"

fun last_write_short :: "'f io list \<Rightarrow> bool" where
  "last_write_short [] = False"
| "last_write_short (Fwrite p count n # cs) = (n \<noteq> unat count)"
| "last_write_short (c # cs) = last_write_short cs"

fun earlier_writes_full :: "'f io list \<Rightarrow> bool" where
  "earlier_writes_full [] = True"
| "earlier_writes_full (Fwrite p count n # cs) = full_writes cs"
| "earlier_writes_full (c # cs) = earlier_writes_full cs"

subsection \<open>Concrete runs\<close>

text \<open>
  An instance for the examples: widths and heights that are whole numbers of pixels, a
  camera delivering 640 by 480 frames, and the answers of a healthy environment.
\<close>

definition whole_area :: "nat \<Rightarrow> nat \<Rightarrow> U32" where
  "whole_area w h = word_of_nat (w * h)"

definition frame :: "U32 \<Rightarrow> nat FRAME_DESC" where
  "frame n = \<lparr> uFrameNumber = n, Roi_fWidth = 640, Roi_fHeight = 480 \<rparr>"

definition good :: main_env where
  "good = \<lparr> api_success = True, numCameras = 1, kbhit = False \<rparr>"

definition key_hit :: main_env where
  "key_hit = \<lparr> api_success = True, numCameras = 1, kbhit = True \<rparr>"

definition no_camera :: main_env where
  "no_camera = \<lparr> api_success = True, numCameras = 0, kbhit = False \<rparr>"

definition full_write :: sink_env where
  "full_write = \<lparr> fopen_ok = True, fwrite_count = 640 * 480 \<rparr>"

definition no_file :: sink_env where
  "no_file = \<lparr> fopen_ok = False, fwrite_count = 0 \<rparr>"

text \<open>
  \<open>main\<close> up to its polling loop (enumerate, initialise, start the stream, launch the
  threads, the check after half a second).
\<close>

definition startup :: "nat event list" where
  "startup = [Main good, Main good, Main good, Main good, Main good]"

text \<open>
  One pass of the capture loop that gets frame \<open>n\<close> and queues it: the loop condition, the
  acquire, the queue check, the push.  The answer that comes with a step that makes no call
  is not read.
\<close>

definition capture :: "U32 \<Rightarrow> nat event list" where
  "capture n = [Source (Inl 0), Source (Inr (frame n)), Source (Inl 0), Source (Inl 0)]"

text \<open>
  The sink never scheduled: after the initial frame 1 the source captures and queues
  frames 2 to 14, so that 13 buffers wait in the queue.
\<close>

definition stalled_sink :: "nat event list" where
  "stalled_sink = startup @ [Source (Inr (frame 1))] @ concat (map capture [2, 3, 4, 5, 6, 7, 8, 9, 10, 11, 12, 13, 14])"

text \<open>The source has its initial frame and stands at the condition of its loop.\<close>

definition streaming :: "nat event list" where
  "streaming = startup @ [Source (Inr (frame 1))]"

text \<open>
  The user hits a key while the source still waits for its initial frame: \<open>main\<close> passes
  the loop condition and \<open>kbhit\<close> answers true.
\<close>

definition user_stop_waiting :: "nat event list" where
  "user_stop_waiting = startup @ [Main good, Main key_hit]"

text \<open>A pass of the capture loop followed by a pass of the sink loop that writes the frame.\<close>

definition pump :: "U32 \<Rightarrow> nat event list" where
  "pump n = capture n @ [Sink full_write, Sink full_write, Sink full_write]"

text \<open>
  A session stopped by the user: one frame written, a key hit, the source and the sink see
  the status and finish, \<open>main\<close> stops the stream, cleans up and returns.
\<close>

definition graceful_stop :: "nat event list" where
  "graceful_stop = startup @ [Source (Inr (frame 1)), Sink full_write] @ pump 2
     @ [Main good, Main key_hit, Source (Inl 0), Sink full_write, Main good, Main good]"

text \<open>A later frame whose descriptor carries other dimensions than the first one.\<close>

definition big_frame :: "U32 \<Rightarrow> nat FRAME_DESC" where
  "big_frame n = \<lparr> uFrameNumber = n, Roi_fWidth = 1280, Roi_fHeight = 960 \<rparr>"

definition short_write :: sink_env where
  "short_write = \<lparr> fopen_ok = True, fwrite_count = 100 \<rparr>"

text \<open>
  The file is opened, frame 2 arrives with the other dimensions, is queued, popped and
  written in full.
\<close>

definition one_written :: "nat event list" where
  "one_written = streaming @ [Sink full_write, Source (Inl 0), Source (Inr (big_frame 2)),
     Source (Inl 0), Source (Inl 0), Sink full_write, Sink full_write, Sink full_write]"

text \<open>
  Then frame 3 is captured, queued and popped, so that its \<open>fwrite\<close> is due; and the
  \<open>fwrite\<close> stores 100 bytes only.
\<close>

definition write_pending :: "nat event list" where
  "write_pending = one_written @ capture 3 @ [Sink full_write, Sink full_write]"

definition short_written :: "nat event list" where
  "short_written = write_pending @ [Sink short_write]"

text \<open>Frames 2 to 34 captured and written in full, one after the other: 33 frames.\<close>

definition wrapped :: "nat event list" where
  "wrapped = streaming @ [Sink full_write] @ concat (map pump [2, 3, 4, 5, 6, 7, 8, 9, 10, 11, 12, 13, 14, 15, 16, 17, 18, 19, 20, 21, 22, 23, 24, 25, 26, 27, 28, 29, 30, 31, 32, 33, 34])"

text \<open>What the sink has done, read off a state.\<close>

definition sink_view :: "'f iw_state \<Rightarrow> sink_pc \<times> nat \<times> nat \<times> nat \<times> U32" where
  "sink_view s =
    (sink_at s, frames_written (calls s), file_pos s, file_size s, s_frameSize s)"

subsection \<open>Invariants of the reachable states\<close>

text \<open>Before \<open>main\<close> has created the threads.\<close>

definition before_launch :: "'f iw_state \<Rightarrow> bool" where
  "before_launch s = (main_at s \<in> {M_Enumerate, M_Initialize, M_StartStream, M_Launch})"

text \<open>
  Until the launch the status is untouched and no thread runs; \<open>main\<close> only ever returns 0;
  the write cursor stays inside the pool.
\<close>

definition inv_launch :: "'f iw_state \<Rightarrow> bool" where
  "inv_launch s =
    ((before_launch s \<longrightarrow>
        s_status s = STATUS_RUNNING \<and> source_at s = Src_Idle \<and> sink_at s = Snk_Idle)
     \<and> (\<forall>c. main_at s = M_Returned c \<longrightarrow> c = 0)
     \<and> s_tail s < 16)"

text \<open>
  As long as no frame has been captured nothing is queued and nothing written; from the
  first captured frame on, \<open>s_frameSize\<close> is the size computed from that frame's descriptor
  and every \<open>fwrite\<close> has asked for exactly that many bytes.
\<close>

definition inv_frames :: "('f \<Rightarrow> 'f \<Rightarrow> U32) \<Rightarrow> 'f iw_state \<Rightarrow> bool" where
  "inv_frames area s =
    (case first_frame (calls s) of
       None \<Rightarrow>
         source_at s \<in> {Src_Idle, Src_First, Src_Exit} \<and> s_frameQueue s = []
         \<and> sink_at s \<noteq> Snk_Write \<and> (\<forall>p c n. Fwrite p c n \<notin> set (calls s))
         \<and> frames_written (calls s) = 0 \<and> numFramesInFile s = 0
         \<and> file_pos s = 0 \<and> file_size s = 0
     | Some d \<Rightarrow>
         source_at s \<notin> {Src_Idle, Src_First}
         \<and> s_frameSize s = area (Roi_fWidth d) (Roi_fHeight d)
         \<and> (\<forall>p c n. Fwrite p c n \<in> set (calls s) \<longrightarrow> c = s_frameSize s \<and> n \<le> unat c))"

text \<open>
  The output file: its size is bounded, and while the sink has not finished the per-file
  counter is the number of frames written modulo \<open>MAX_IMAGES\<close> and the position is that many
  frames from the start.
\<close>

definition inv_file :: "'f iw_state \<Rightarrow> bool" where
  "inv_file s =
    (file_size s \<le> unat MAX_IMAGES * unat (s_frameSize s)
     \<and> (sink_at s \<in> {Snk_Idle, Snk_Open} \<longrightarrow>
          frames_written (calls s) = 0 \<and> file_size s = 0)
     \<and> (sink_at s \<noteq> Snk_Exit \<longrightarrow>
          numFramesInFile s < MAX_IMAGES
          \<and> unat (numFramesInFile s) = frames_written (calls s) mod unat MAX_IMAGES
          \<and> file_pos s = unat (numFramesInFile s) * unat (s_frameSize s)))"

definition iw_inv :: "('f \<Rightarrow> 'f \<Rightarrow> U32) \<Rightarrow> 'f iw_state \<Rightarrow> bool" where
  "iw_inv area s = (inv_launch s \<and> inv_frames area s \<and> inv_file s)"

text \<open>
  Only the most recent \<open>fwrite\<close> can have come short, and when it has, the sink has
  finished and the status is no longer \<open>STATUS_RUNNING\<close>.
\<close>

definition inv_writes :: "'f iw_state \<Rightarrow> bool" where
  "inv_writes s =
    (earlier_writes_full (calls s)
     \<and> (last_write_short (calls s) \<longrightarrow> sink_at s = Snk_Exit \<and> s_status s \<noteq> STATUS_RUNNING))"

section \<open>Camera configuration files (helpers.cpp)\<close>

subsection \<open>The camera and the file\<close>

definition PXL_CONFIG_FILE_MAGIC_NUMBER :: U32 where
  "PXL_CONFIG_FILE_MAGIC_NUMBER = 0x41513879"

text \<open>
  What \<open>WriteConfigFile\<close> and \<open>ReadConfigFile\<close> use of the camera.  The class \<open>PxLCamera\<close>
  and the SDK with its feature numbering are not part of the sources at hand, so they are
  parameters:
  \<^item> the constants \<open>FEATURES_TOTAL\<close>, \<open>FEATURE_GPIO\<close> and \<open>FEATURE_MEMORY_CHANNEL\<close>;
  \<^item> the queries \<open>supported\<close>, \<open>manualSupported\<close> and \<open>numParametersSupported\<close>;
  \<^item> \<open>getGpioRange\<close>: whether its return code is \<open>ApiSuccess\<close>, and the value of \<open>numGpios\<close>
    after the call;
  \<^item> \<open>PxLGetFeature\<close>: from the feature, the parameter count passed in and the parameter
    words passed in, the flags, the parameter count and the parameter words it leaves
    (its return code is not read by the caller);
  \<^item> \<open>float_of\<close>: the conversion \<open>static_cast<float>\<close> of a GPIO number.
  A \<open>float\<close> is stored and copied as its 32 bits; nothing else is computed with it.
\<close>

record camera =
  FEATURES_TOTAL :: nat
  FEATURE_GPIO :: nat
  FEATURE_MEMORY_CHANNEL :: nat
  supported :: "nat \<Rightarrow> bool"
  manualSupported :: "nat \<Rightarrow> bool"
  numParametersSupported :: "nat \<Rightarrow> U32"
  getGpioRange :: "bool \<times> int"
  PxLGetFeature :: "nat \<Rightarrow> U32 \<Rightarrow> U32 list \<Rightarrow> U32 \<times> U32 \<times> U32 list"
  float_of :: "int \<Rightarrow> U32"

text \<open>
  The buffer and the file are sequences of 32-bit words: every access of the two functions
  is to an \<open>int\<close>, a \<open>U32\<close> or a \<open>float\<close> at an offset that is a multiple of 4.  A
  \<open>FeatureData\<close> at word offset \<open>off\<close> has \<open>featureId\<close> at \<open>off\<close>, \<open>flags\<close> at \<open>off + 1\<close>,
  \<open>nParams\<close> at \<open>off + 2\<close> and \<open>param1\<close> at \<open>off + 3\<close>, followed by the extra parameters.

  The ways a call can end without returning: the \<open>ASSERT\<close> of the writer fails, an access
  falls outside the buffer, or the buffer cannot be allocated because its size is negative.
\<close>

datatype cfg_error = Assertion_failed | Out_of_bounds | Bad_alloc

fun fold_err :: "('a \<Rightarrow> 's \<Rightarrow> cfg_error + 's) \<Rightarrow> 'a list \<Rightarrow> 's \<Rightarrow> cfg_error + 's" where
  "fold_err f [] s = Inr s"
| "fold_err f (x # xs) s = (case f x s of Inl e \<Rightarrow> Inl e | Inr s' \<Rightarrow> fold_err f xs s')"

subsection \<open>WriteConfigFile\<close>

text \<open>
  Step 1, one feature: the running values of \<open>nSupported\<close>, \<open>nExtraParams\<close> (both \<open>int\<close>,
  kept as 32-bit patterns; \<open>num * (pcount - 1)\<close> is computed in \<open>U32\<close>) and \<open>numGpios\<close>.
\<close>

definition count_feature :: "camera \<Rightarrow> nat \<Rightarrow> U32 \<times> U32 \<times> int \<Rightarrow> U32 \<times> U32 \<times> int" where
  "count_feature cam featureId = (\<lambda>(nSupported, nExtraParams, numGpios).
     if \<not> supported cam featureId then (nSupported, nExtraParams, numGpios)
     else if featureId = FEATURE_MEMORY_CHANNEL cam then (nSupported, nExtraParams, numGpios)
     else
       (let (num, numGpios') =
              (if featureId = FEATURE_GPIO cam
               then (if fst (getGpioRange cam) then snd (getGpioRange cam) else 1,
                     snd (getGpioRange cam))
               else (1, numGpios));
            pcount = numParametersSupported cam featureId
        in (nSupported + of_int num, nExtraParams + of_int num * (pcount - 1), numGpios')))"

definition count_features :: "camera \<Rightarrow> U32 \<times> U32 \<times> int" where
  "count_features cam =
     foldl (\<lambda>acc featureId. count_feature cam featureId acc) (0, 0, 0) [0..<FEATURES_TOTAL cam]"

text \<open>
  Step 4, one \<open>FeatureData\<close> at \<open>pbuf\<close> (word offset \<open>off\<close>); \<open>gpio\<close> is the GPIO number
  for a record of \<open>FEATURE_GPIO\<close>.  \<open>PxLGetFeature\<close> stores at most the \<open>pcount\<close> parameters
  it was given room for.
\<close>

definition store_record ::
  "camera \<Rightarrow> nat \<Rightarrow> U32 \<Rightarrow> int option \<Rightarrow> U32 list \<times> nat \<Rightarrow> cfg_error + U32 list \<times> nat" where
  "store_record cam featureId pcount gpio = (\<lambda>(buf, off).
     if length buf < off + 3 \<or> (gpio \<noteq> None \<and> length buf < off + 4) then Inl Out_of_bounds
     else
       (let buf1 = buf[off := of_nat featureId, off + 2 := pcount];
            buf2 = (case gpio of None \<Rightarrow> buf1
                    | Some gpioNum \<Rightarrow> buf1[off + 3 := float_of cam gpioNum]);
            (flags, nParams, params) =
               PxLGetFeature cam featureId pcount (take (unat pcount) (drop (off + 3) buf2));
            stored = take (unat pcount) params
        in if length buf < off + 3 + length stored then Inl Out_of_bounds
           else Inr (take (off + 3) (buf2[off + 1 := flags, off + 2 := nParams])
                       @ stored @ drop (off + 3 + length stored) buf2,
                     off + 4 + unat (pcount - 1))))"

definition store_feature ::
  "camera \<Rightarrow> int \<Rightarrow> nat \<Rightarrow> U32 list \<times> nat \<Rightarrow> cfg_error + U32 list \<times> nat" where
  "store_feature cam numGpios featureId st =
     (if \<not> supported cam featureId then Inr st
      else if featureId = FEATURE_MEMORY_CHANNEL cam then Inr st
      else
        (let pcount = numParametersSupported cam featureId
         in if featureId = FEATURE_GPIO cam
            then fold_err (\<lambda>gpioNum. store_record cam featureId pcount (Some gpioNum))
                   [1..numGpios] st
            else store_record cam featureId pcount None st))"

text \<open>
  Steps 1 to 5: the buffer handed to \<open>fwrite\<close>.  \<open>ndebug\<close> tells whether the program was
  compiled with \<open>NDEBUG\<close>, which removes the \<open>ASSERT\<close>.
\<close>

definition config_buffer :: "camera \<Rightarrow> bool \<Rightarrow> cfg_error + U32 list" where
  "config_buffer cam ndebug =
     (let (nSupported, nExtraParams, numGpios) = count_features cam;
          bufsize = (12 + nSupported * 16 + nExtraParams * 4 :: U32)
      in if sint bufsize < 0 then Inl Bad_alloc
         else
           (let buffer = replicate (unat bufsize div 4) (0 :: U32)
            in if length buffer < 3 then Inl Out_of_bounds
               else
                 (case fold_err (store_feature cam numGpios) (rev [0..<FEATURES_TOTAL cam])
                         (buffer[0 := PXL_CONFIG_FILE_MAGIC_NUMBER, 1 := 0, 2 := nSupported], 3)
                  of Inl e \<Rightarrow> Inl e
                   | Inr (buf, off) \<Rightarrow>
                       if \<not> ndebug \<and> off \<noteq> length buf then Inl Assertion_failed
                       else Inr buf)))"

text \<open>
  Step 6.  \<open>written\<close> is \<open>None\<close> when \<open>fopen\<close> fails and otherwise the number of bytes
  \<open>fwrite\<close> reports.  The result is the value returned and the file left behind, if any.
\<close>

definition WriteConfigFile ::
  "camera \<Rightarrow> bool \<Rightarrow> nat option \<Rightarrow> cfg_error + bool \<times> U32 list option" where
  "WriteConfigFile cam ndebug written =
     (case config_buffer cam ndebug of
        Inl e \<Rightarrow> Inl e
      | Inr buffer \<Rightarrow>
          (case written of
             None \<Rightarrow> Inr (False, None)
           | Some n \<Rightarrow>
               (let numBytesWritten = min n (4 * length buffer)
                in Inr (numBytesWritten = 4 * length buffer,
                        Some (take (numBytesWritten div 4) buffer)))))"

subsection \<open>ReadConfigFile\<close>

text \<open>A call of \<open>PxLSetFeature\<close>: the feature, the flags, the parameter count, the parameters.\<close>

type_synonym set_call = "U32 \<times> U32 \<times> U32 \<times> U32 list"

text \<open>
  Step 4, one pass of the loop with \<open>pbuf\<close> at word offset \<open>off\<close>: the call of
  \<open>PxLSetFeature\<close> it makes, if any, and the offset of the next record.
\<close>

definition set_feature :: "camera \<Rightarrow> U32 list \<Rightarrow> nat \<Rightarrow> cfg_error + set_call list \<times> nat" where
  "set_feature cam buf off =
     (if length buf < off + 3 then Inl Out_of_bounds
      else
        (let featureId = buf ! off; flags = buf ! (off + 1); nParams = buf ! (off + 2);
             cameraNParams = numParametersSupported cam (unat featureId);
             n = (if nParams < cameraNParams then nParams else cameraNParams);
             setting = (unat featureId \<noteq> FEATURE_MEMORY_CHANNEL cam
                        \<and> manualSupported cam (unat featureId))
         in if setting \<and> length buf < off + 3 + unat n then Inl Out_of_bounds
            else Inr (if setting
                      then [(featureId, flags, n, take (unat n) (drop (off + 3) buf))]
                      else [],
                      off + 4 + unat (nParams - 1))))"

text \<open>
  The loop over the \<open>nFeatures\<close> records announced by the header, \<open>k\<close> of them still to
  come; the calls of \<open>PxLSetFeature\<close> it makes, in order.
\<close>

fun set_features :: "camera \<Rightarrow> nat \<Rightarrow> U32 list \<Rightarrow> nat \<Rightarrow> cfg_error + set_call list" where
  "set_features cam 0 buf off = Inr []"
| "set_features cam (Suc k) buf off =
     (case set_feature cam buf off of
        Inl e \<Rightarrow> Inl e
      | Inr (made, off') \<Rightarrow>
          (case set_features cam k buf off' of
             Inl e \<Rightarrow> Inl e
           | Inr later \<Rightarrow> Inr (made @ later)))"

text \<open>
  The whole function.  \<open>file\<close> is \<open>None\<close> when \<open>fopen\<close> fails; \<open>numBytesRead\<close> is what
  \<open>fread\<close> reports.  \<open>fileSize\<close> is an \<open>int\<close>.  The result is the value returned and the
  calls of \<open>PxLSetFeature\<close> made.
\<close>

definition ReadConfigFile ::
  "camera \<Rightarrow> U32 list option \<Rightarrow> nat \<Rightarrow> cfg_error + bool \<times> set_call list" where
  "ReadConfigFile cam file numBytesRead =
     (case file of
        None \<Rightarrow> Inr (False, [])
      | Some content \<Rightarrow>
          (let fileSize = sint (word_of_nat (4 * length content) :: U32)
           in if fileSize \<le> 0 then Inr (False, [])
              else
                (let buffer = take (nat fileSize div 4) content
                 in if numBytesRead \<noteq> nat fileSize then Inr (False, [])
                    else if length buffer < 1 then Inl Out_of_bounds
                    else if buffer ! 0 \<noteq> PXL_CONFIG_FILE_MAGIC_NUMBER then Inr (False, [])
                    else if length buffer < 2 then Inl Out_of_bounds
                    else if buffer ! 1 \<noteq> 0 then Inr (False, [])
                    else if length buffer < 3 then Inl Out_of_bounds
                    else
                      (case set_features cam (nat (sint (buffer ! 2))) buffer 3 of
                         Inl e \<Rightarrow> Inl e
                       | Inr made \<Rightarrow> Inr (True, made)))))"

subsection \<open>What a round trip should give\<close>

text \<open>
  The records of one feature, by the number of the feature and, for the GPIO feature, the
  number of the GPIO: none for a feature that is not supported or is the memory channel,
  one for each GPIO of the range for the GPIO feature, one otherwise.  The records of the
  camera, from the highest feature number to the lowest.
\<close>

definition records1 :: "camera \<Rightarrow> nat \<Rightarrow> (nat \<times> int option) list" where
  "records1 cam f =
     (if supported cam f \<and> f \<noteq> FEATURE_MEMORY_CHANNEL cam
      then (if f = FEATURE_GPIO cam
            then map (\<lambda>g. (f, Some g)) [1..snd (getGpioRange cam)]
            else [(f, None)])
      else [])"

definition feature_records :: "camera \<Rightarrow> (nat \<times> int option) list" where
  "feature_records cam = concat (map (records1 cam) (rev [0..<FEATURES_TOTAL cam]))"

text \<open>
  The feature that gets one record for each GPIO.
\<close>

definition gpio_recorded :: "camera \<Rightarrow> nat \<Rightarrow> bool" where
  "gpio_recorded cam f =
     (f = FEATURE_GPIO cam \<and> supported cam f \<and> f \<noteq> FEATURE_MEMORY_CHANNEL cam)"

text \<open>
  For a record: the parameter words in the fresh buffer when \<open>PxLGetFeature\<close> is called
  (zeros, after the GPIO number if there is one), what \<open>PxLGetFeature\<close> answers, and the
  words of the record in the file.
\<close>

definition params_before :: "camera \<Rightarrow> nat \<times> int option \<Rightarrow> U32 list" where
  "params_before cam r =
     (let zeros = replicate (unat (numParametersSupported cam (fst r))) 0
      in case snd r of None \<Rightarrow> zeros | Some g \<Rightarrow> zeros[0 := float_of cam g])"

definition recorded :: "camera \<Rightarrow> nat \<times> int option \<Rightarrow> U32 \<times> U32 \<times> U32 list" where
  "recorded cam r =
     PxLGetFeature cam (fst r) (numParametersSupported cam (fst r)) (params_before cam r)"

definition record_words :: "camera \<Rightarrow> nat \<times> int option \<Rightarrow> U32 list" where
  "record_words cam r =
     (case recorded cam r of (flags, nParams, params) \<Rightarrow>
        [of_nat (fst r), flags, nParams] @ params)"

definition words_of :: "camera \<Rightarrow> (nat \<times> int option) list \<Rightarrow> U32 list" where
  "words_of cam rs = concat (map (record_words cam) rs)"

text \<open>
  The extra parameters the writer reserves room for.
\<close>

definition extra_params :: "camera \<Rightarrow> (nat \<times> int option) list \<Rightarrow> nat" where
  "extra_params cam rs = sum_list (map (\<lambda>r. unat (numParametersSupported cam (fst r)) - 1) rs)"

text \<open>
  The file with all records, and the calls of \<open>PxLSetFeature\<close> that set every manually
  settable feature in it to what was recorded.
\<close>

definition config_file :: "camera \<Rightarrow> U32 list" where
  "config_file cam =
     [PXL_CONFIG_FILE_MAGIC_NUMBER, 0, of_nat (length (feature_records cam))]
     @ words_of cam (feature_records cam)"

definition set_call_of :: "camera \<Rightarrow> nat \<times> int option \<Rightarrow> set_call" where
  "set_call_of cam r =
     (case recorded cam r of (flags, nParams, params) \<Rightarrow>
        (of_nat (fst r), flags, nParams, params))"

definition set_calls_of :: "camera \<Rightarrow> (nat \<times> int option) list \<Rightarrow> set_call list" where
  "set_calls_of cam rs =
     concat (map (\<lambda>r. if manualSupported cam (fst r) then [set_call_of cam r] else []) rs)"

text \<open>
  What the two functions take for granted.  For a record, \<open>PxLGetFeature\<close> answers in full:
  the feature has at least one parameter, and \<open>PxLGetFeature\<close> reports the parameter count
  it was given and fills in that many parameters.  The camera is well behaved when this
  holds for all its records, the GPIO range query of a camera with a GPIO feature answers
  \<open>ApiSuccess\<close> and a count that is not negative, the feature numbers fit a \<open>U32\<close> and the
  size of the file fits an \<open>int\<close>.
\<close>

definition answers_in_full :: "camera \<Rightarrow> nat \<times> int option \<Rightarrow> bool" where
  "answers_in_full cam r =
     (numParametersSupported cam (fst r) \<noteq> 0
      \<and> (case recorded cam r of (flags, nParams, params) \<Rightarrow>
            nParams = numParametersSupported cam (fst r)
            \<and> length params = unat (numParametersSupported cam (fst r))))"

definition well_behaved :: "camera \<Rightarrow> bool" where
  "well_behaved cam =
     ((\<forall>r \<in> set (feature_records cam). answers_in_full cam r)
      \<and> (FEATURE_GPIO cam < FEATURES_TOTAL cam \<and> gpio_recorded cam (FEATURE_GPIO cam) \<longrightarrow>
           fst (getGpioRange cam) \<and> 0 \<le> snd (getGpioRange cam))
      \<and> FEATURES_TOTAL cam \<le> 2 ^ 32
      \<and> 4 * length (config_file cam) < 2 ^ 31)"

text \<open>
  An instance for the examples: three features, 0 with one parameter (value 7, flags 1),
  1 the GPIO feature with two parameters (the GPIO number and 5, flags 1), 2 the memory
  channel; all supported and manually settable; \<open>PxLGetFeature\<close> reports the count it was
  given.  For \<open>gpio_camera r\<close> the GPIO range query answers \<open>r\<close>.
\<close>

definition gpio_camera :: "bool \<times> int \<Rightarrow> camera" where
  "gpio_camera r =
     \<lparr> FEATURES_TOTAL = 3, FEATURE_GPIO = 1, FEATURE_MEMORY_CHANNEL = 2,
       supported = (\<lambda>f. f < 3), manualSupported = (\<lambda>f. f < 3),
       numParametersSupported = (\<lambda>f. if f = 1 then 2 else 1),
       getGpioRange = r,
       PxLGetFeature = (\<lambda>f n ps. if f = 1 then (1, n, take 1 ps @ [5]) else (1, n, [7])),
       float_of = (\<lambda>i. word_of_int i) \<rparr>"

section \<open>Properties of the frame callback\<close>

lemma sint_dec32:
  fixes x :: "32 word"
  assumes "sint x \<noteq> - (2 ^ 31)"
  shows "sint (x - 1) = sint x - 1"
proof -
  have lo: "- (2 ^ 31) \<le> sint x" and hi: "sint x < 2 ^ 31"
    using sint_ge [of x] sint_lt [of x] by simp_all
  have "sint (x - 1) = signed_take_bit 31 (sint x - 1)"
    by (simp add: sint_word_ariths)
  also have "\<dots> = sint x - 1"
    using lo hi assms by (intro signed_take_bit_int_eq_self) simp_all
  finally show ?thesis .
qed

text \<open>
  C2.  Called with the device sequence numbers 1, 3, 2, 4 in that order, starting from the
  initial globals: the lost-frame count is 1 right after the call with 3, the frame 2 then
  arrives below the expected number (4) and the count is 0 right after it, and it is still 0
  after the call with 4.
\<close>

theorem late_arrival_1324:
  "sint (gLostFrameCount (callbacks [1, 3] cb_initial)) = 1
   \<and> (2 :: 32 word) < gExpectedFrameNum (callbacks [1, 3] cb_initial)
   \<and> sint (gLostFrameCount (callbacks [1, 3, 2] cb_initial)) = 0
   \<and> sint (gLostFrameCount (callbacks [1, 3, 2, 4] cb_initial)) = 0"
  by (simp add: cb_initial_def FrameCallbackFunction_def)

text \<open>
  C10.  In an invocation after the first frame whose sequence number is strictly below the
  expected tracker, the lost-frame count goes down by 1 (as a 32-bit pattern, and as the
  signed number it stands for unless it was already the least \<open>int\<close>) and the tracker is
  left as it was.  So a duplicated sequence number drives the count negative: after
  1, 2, 2 it is -1.
\<close>

theorem late_frame_decrements:
  assumes "gReceivedFirstFrame g" and "n < gExpectedFrameNum g"
  shows "gLostFrameCount (FrameCallbackFunction n g) = gLostFrameCount g - 1
         \<and> (sint (gLostFrameCount g) \<noteq> - (2 ^ 31) \<longrightarrow>
              sint (gLostFrameCount (FrameCallbackFunction n g)) = sint (gLostFrameCount g) - 1)
         \<and> gExpectedFrameNum (FrameCallbackFunction n g) = gExpectedFrameNum g
         \<and> sint (gLostFrameCount (callbacks [1, 2, 2] cb_initial)) = - 1"
  using assms by (simp add: FrameCallbackFunction_def cb_initial_def sint_dec32)

theorem late_frame_decrements_witness:
  "gReceivedFirstFrame (callbacks [1, 2] cb_initial)
   \<and> (2 :: 32 word) < gExpectedFrameNum (callbacks [1, 2] cb_initial)
   \<and> sint (gLostFrameCount (callbacks [1, 2] cb_initial)) \<noteq> - (2 ^ 31)
   \<and> sint (gLostFrameCount (FrameCallbackFunction 2 (callbacks [1, 2] cb_initial))) = - 1
   \<and> gExpectedFrameNum (FrameCallbackFunction 2 (callbacks [1, 2] cb_initial)) = 3"
proof -
  have r: "gReceivedFirstFrame (callbacks [1, 2] cb_initial)"
    by (simp add: cb_initial_def FrameCallbackFunction_def)
  have l: "(2 :: 32 word) < gExpectedFrameNum (callbacks [1, 2] cb_initial)"
    by (simp add: cb_initial_def FrameCallbackFunction_def)
  have z: "gLostFrameCount (callbacks [1, 2] cb_initial) = 0"
    by (simp add: cb_initial_def FrameCallbackFunction_def)
  have e: "gExpectedFrameNum (callbacks [1, 2] cb_initial) = 3"
    by (simp add: cb_initial_def FrameCallbackFunction_def)
  from late_frame_decrements [OF r l] r l z e show ?thesis by simp
qed

section \<open>Properties of the image writer\<close>

subsection \<open>Word arithmetic of the cursor and the frame counter\<close>

lemma and_mask16_less: "(x :: U32) AND BUFFER_SIZE_MASK < 16"
proof -
  have "x AND 15 \<le> 15" by (rule word_and_le1)
  then show ?thesis unfolding BUFFER_SIZE_MASK_def
    by (simp add: word_le_nat_alt word_less_nat_alt)
qed

subsection \<open>The invariants hold in every reachable state\<close>

lemma inv_launch_main: "inv_launch s \<Longrightarrow> inv_launch (main_step e s)"
  by (cases "main_at s") (auto simp: inv_launch_def before_launch_def main_step_def log_def)

lemma inv_launch_source: "inv_launch s \<Longrightarrow> inv_launch (source_step area r s)"
  by (cases "source_at s")
     (auto simp: inv_launch_def before_launch_def source_step_def log_def Let_def and_mask16_less
           split: sum.splits)

lemma inv_launch_sink: "inv_launch s \<Longrightarrow> inv_launch (sink_step e s)"
  by (cases "sink_at s")
     (auto simp: inv_launch_def before_launch_def sink_step_def log_def Let_def
           split: list.splits)

lemma inv_launch_step: "inv_launch s \<Longrightarrow> inv_launch (step area ev s)"
  by (cases ev) (simp_all add: step_def inv_launch_main inv_launch_source inv_launch_sink)

lemma inv_frames_main: "inv_launch s \<Longrightarrow> inv_frames area s \<Longrightarrow> inv_frames area (main_step e s)"
  by (cases "main_at s")
     (auto simp: inv_launch_def before_launch_def inv_frames_def main_step_def log_def
           split: option.splits)

lemma inv_frames_source: "inv_frames area s \<Longrightarrow> inv_frames area (source_step area r s)"
  by (cases "source_at s")
     (auto simp: inv_frames_def source_step_def log_def Let_def
           split: sum.splits option.splits)

lemma inv_frames_sink: "inv_frames area s \<Longrightarrow> inv_frames area (sink_step e s)"
  by (cases "sink_at s")
     (auto simp: inv_frames_def sink_step_def log_def Let_def
           split: list.splits option.splits)

lemma inv_file_main: "inv_launch s \<Longrightarrow> inv_file s \<Longrightarrow> inv_file (main_step e s)"
  by (cases "main_at s")
     (auto simp: inv_launch_def before_launch_def inv_file_def main_step_def log_def)

lemma inv_file_source:
  "inv_frames area s \<Longrightarrow> inv_file s \<Longrightarrow> inv_file (source_step area r s)"
  by (cases "source_at s")
     (auto simp: inv_frames_def inv_file_def source_step_def log_def Let_def
           split: sum.splits option.splits)

lemma count_step:
  fixes c :: U32
  assumes "c < 32"
  shows "unat (c + 1) = Suc (unat c)" and "(32 \<le> c + 1) = (unat c = 31)"
proof -
  from assms have "unat c < 32" by (simp add: word_less_nat_alt)
  then show u: "unat (c + 1) = Suc (unat c)" by (simp add: unat_word_ariths)
  show "(32 \<le> c + 1) = (unat c = 31)"
    using \<open>unat c < 32\<close> by (auto simp: word_le_nat_alt u)
qed

lemma inv_file_write:
  assumes "inv_file s" and "sink_at s = Snk_Write"
  shows "inv_file (sink_step e s)"
proof -
  let ?F = "unat (s_frameSize s)"
  let ?k = "unat (numFramesInFile s)"
  from assms have lt: "numFramesInFile s < 32"
    and k: "?k = frames_written (calls s) mod 32"
    and pos: "file_pos s = ?k * ?F"
    and sz: "file_size s \<le> 32 * ?F"
    by (simp_all add: inv_file_def MAX_IMAGES_def)
  from lt have k32: "?k < 32" by (simp add: word_less_nat_alt)
  have full: "file_pos s + ?F \<le> 32 * ?F"
  proof -
    have "Suc ?k * ?F \<le> 32 * ?F" using k32 by (intro mult_le_mono1) simp
    then show ?thesis by (simp add: pos)
  qed
  show ?thesis
  proof (cases "min (fwrite_count e) ?F = ?F")
    case False
    then have "min (fwrite_count e) ?F \<le> ?F" by simp
    with full sz False show ?thesis
      using assms(2) by (simp add: inv_file_def sink_step_def log_def Let_def MAX_IMAGES_def)
  next
    case True
    show ?thesis
    proof (cases "?k = 31")
      case k31: True
      then have "Suc (frames_written (calls s)) mod 32 = 0"
        using k by (simp add: mod_Suc)
      with True full sz k31 lt show ?thesis
        using assms(2)
        by (simp add: inv_file_def sink_step_def log_def Let_def MAX_IMAGES_def count_step max_def)
    next
      case k31: False
      then have m: "Suc (frames_written (calls s)) mod 32 = Suc ?k"
        using k k32 by (simp add: mod_Suc)
      have "numFramesInFile s + 1 < 32"
        using k31 k32 lt by (simp add: word_less_nat_alt count_step)
      with True full sz k31 lt m pos show ?thesis
        using assms(2)
        by (simp add: inv_file_def sink_step_def log_def Let_def MAX_IMAGES_def count_step max_def)
    qed
  qed
qed

lemma inv_file_sink: "inv_file s \<Longrightarrow> inv_file (sink_step e s)"
proof (cases "sink_at s")
  case Snk_Write
  assume "inv_file s"
  then show ?thesis using Snk_Write by (rule inv_file_write)
qed (auto simp: inv_file_def sink_step_def log_def Let_def MAX_IMAGES_def split: list.splits)

lemma iw_inv_step: "iw_inv area s \<Longrightarrow> iw_inv area (step area ev s)"
  by (cases ev)
     (simp_all add: iw_inv_def step_def inv_launch_main inv_launch_source inv_launch_sink
        inv_frames_main inv_frames_source inv_frames_sink
        inv_file_main inv_file_source inv_file_sink)

lemma iw_inv_initial: "iw_inv area iw_initial"
  by (simp add: iw_inv_def inv_launch_def before_launch_def inv_frames_def inv_file_def
        iw_initial_def MAX_IMAGES_def)

lemma iw_inv_run: "iw_inv area s \<Longrightarrow> iw_inv area (run area evs s)"
  by (induction evs arbitrary: s) (simp_all add: iw_inv_step)

lemma iw_inv_reachable: "iw_inv area (run area evs iw_initial)"
  by (rule iw_inv_run [OF iw_inv_initial])

lemma run_append: "run area (evs @ evs') s = run area evs' (run area evs s)"
  by (induction evs arbitrary: s) simp_all

subsection \<open>A short write is the last write\<close>

lemma full_writes_split:
  "earlier_writes_full cs \<Longrightarrow> \<not> last_write_short cs \<Longrightarrow> full_writes cs"
  by (induction cs rule: full_writes.induct) simp_all

lemma inv_writes_main: "inv_launch s \<Longrightarrow> inv_writes s \<Longrightarrow> inv_writes (main_step e s)"
  by (cases "main_at s")
     (auto simp: inv_launch_def before_launch_def inv_writes_def main_step_def log_def)

lemma inv_writes_source: "inv_writes s \<Longrightarrow> inv_writes (source_step area r s)"
  by (cases "source_at s")
     (auto simp: inv_writes_def source_step_def log_def Let_def split: sum.splits)

lemma inv_writes_sink: "inv_writes s \<Longrightarrow> inv_writes (sink_step e s)"
  by (cases "sink_at s")
     (auto simp: inv_writes_def sink_step_def log_def Let_def full_writes_split
           split: list.splits)

lemma inv_writes_step:
  "inv_launch s \<Longrightarrow> inv_writes s \<Longrightarrow> inv_writes (step area ev s)"
  by (cases ev) (simp_all add: step_def inv_writes_main inv_writes_source inv_writes_sink)

lemma inv_writes_run:
  "inv_launch s \<Longrightarrow> inv_writes s \<Longrightarrow> inv_writes (run area evs s)"
  by (induction evs arbitrary: s) (simp_all add: inv_writes_step inv_launch_step)

lemma inv_writes_reachable: "inv_writes (run area evs iw_initial)"
proof -
  have "inv_launch (iw_initial :: 'a iw_state)"
    using iw_inv_initial [of area] by (simp add: iw_inv_def)
  moreover have "inv_writes (iw_initial :: 'a iw_state)"
    by (simp add: inv_writes_def iw_initial_def)
  ultimately show ?thesis by (rule inv_writes_run)
qed

lemma full_writes_append:
  "full_writes (later @ Fwrite p count n # earlier) \<Longrightarrow> n = unat count"
  by (induction later rule: full_writes.induct) simp_all

lemma short_write_is_last:
  assumes "earlier_writes_full (later @ Fwrite p count n # earlier)" and "n \<noteq> unat count"
  shows "(\<forall>p' c' n'. Fwrite p' c' n' \<notin> set later)
         \<and> last_write_short (later @ Fwrite p count n # earlier)"
  using assms
  by (induction later rule: full_writes.induct) (auto dest: full_writes_append)

lemma tail_back:
  fixes t :: U32
  assumes "t < 16"
  shows "((t + 1) AND BUFFER_SIZE_MASK) - 1 AND BUFFER_SIZE_MASK = t"
proof -
  have m: "BUFFER_SIZE_MASK = mask 4"
    unfolding BUFFER_SIZE_MASK_def by (simp only: mask_eq_exp_minus_1)
  have "((t + 1) AND mask 4) - 1 AND mask 4 = (t + 1 - 1) AND mask 4"
    by (rule mask_eqs(3))
  also have "\<dots> = t AND mask 4" by (simp only: add_diff_cancel_right')
  also have "\<dots> = t" using assms by (intro less_mask_eq) simp
  finally show ?thesis by (simp only: m)
qed


subsection \<open>The status once it is terminal\<close>

lemma terminal_step:
  assumes "inv_launch s" and "s_status s \<noteq> STATUS_RUNNING"
  shows "s_status (step area ev s) \<noteq> STATUS_RUNNING"
proof (cases ev)
  case (Main e)
  with assms show ?thesis
    by (cases "main_at s")
       (auto simp: step_def inv_launch_def before_launch_def main_step_def log_def)
next
  case (Source r)
  with assms show ?thesis
    by (cases "source_at s")
       (auto simp: step_def source_step_def log_def Let_def split: sum.splits)
next
  case (Sink e)
  with assms show ?thesis
    by (cases "sink_at s")
       (auto simp: step_def sink_step_def log_def Let_def split: list.splits)
qed

lemma terminal_run:
  "inv_launch s \<Longrightarrow> s_status s \<noteq> STATUS_RUNNING \<Longrightarrow>
   s_status (run area evs s) \<noteq> STATUS_RUNNING"
  by (induction evs arbitrary: s) (simp_all add: terminal_step inv_launch_step)

subsection \<open>Evaluating concrete runs\<close>

lemmas iw_defs = iw_initial_def step_def returned_def main_step_def source_step_def
  sink_step_def log_def BUFFER_SIZE_def BUFFER_SIZE_MASK_def MAX_IMAGE_SIZE_def MAX_IMAGES_def
  word_le_nat_alt

lemmas ex_defs = whole_area_def frame_def big_frame_def good_def key_hit_def no_camera_def
  full_write_def short_write_def no_file_def startup_def capture_def pump_def streaming_def
  stalled_sink_def user_stop_waiting_def graceful_stop_def one_written_def wrapped_def
  write_pending_def short_written_def

lemma wrapped_state:
  "sink_view (run whole_area wrapped iw_initial)
   = (Snk_While, 33, 307200, 32 * 307200, 307200)"
  by (simp add: iw_defs ex_defs sink_view_def)

subsection \<open>The status is never set back to running\<close>

text \<open>
  C4, as the code has it.  The launch step of \<open>main\<close> sets the status to
  \<open>STATUS_RUNNING\<close>, and once the status of a reachable state is terminal, no sequence of
  steps of \<open>main\<close>, the capture loop and the persistence loop makes it \<open>STATUS_RUNNING\<close>
  again.  (It may still be overwritten by another terminal value, see below.)
\<close>

theorem terminal_never_running:
  assumes "s_status (run area evs iw_initial) \<noteq> STATUS_RUNNING"
  shows "s_status (run area (evs @ evs') iw_initial) \<noteq> STATUS_RUNNING
         \<and> s_status (main_step e (s\<lparr> main_at := M_Launch \<rparr>)) = STATUS_RUNNING"
proof -
  have "inv_launch (run area evs iw_initial)"
    using iw_inv_reachable [of area evs] by (simp add: iw_inv_def)
  with assms show ?thesis
    by (simp add: run_append terminal_run main_step_def)
qed

theorem terminal_never_running_witness:
  "s_status (run whole_area user_stop_waiting iw_initial) \<noteq> STATUS_RUNNING
   \<and> s_status (run whole_area (user_stop_waiting @ [Source (Inl 0x90000005)]) iw_initial)
       \<noteq> STATUS_RUNNING"
proof -
  have h: "s_status (run whole_area user_stop_waiting iw_initial) \<noteq> STATUS_RUNNING"
    by (simp add: iw_defs ex_defs)
  from terminal_never_running [OF h, where evs' = "[Source (Inl 0x90000005)]"] h
  show ?thesis by blast
qed

text \<open>
  The claim that the status changes at most once fails: the key is hit while the source
  waits for its initial frame, the status becomes \<open>STATUS_USER_STOPPED\<close>, and when the
  pending acquire then fails the source sets \<open>STATUS_ERROR\<close>.
\<close>

theorem status_overwritten_after_user_stop:
  "s_status (run whole_area user_stop_waiting iw_initial) = STATUS_USER_STOPPED
   \<and> s_status (run whole_area (user_stop_waiting @ [Source (Inl 0x90000005)]) iw_initial)
       = STATUS_ERROR"
  by (simp add: iw_defs ex_defs)

subsection \<open>The exit code\<close>




subsection \<open>A failed acquire in the loop\<close>

text \<open>
  C6.  A pass of the capture loop (its condition holds, the blocking acquire fails) ends
  with the write cursor where it was, the queue, the expected frame number and the
  status (\<open>STATUS_RUNNING\<close>) unchanged, the thread back at the loop condition, from where
  it goes on to the next acquire; the pass has added the call and its message to the log
  and nothing else has changed but the local \<open>pFrame\<close>.
\<close>

theorem acquire_failure_recycles_slot:
  assumes "s = run area evs iw_initial"
    and "source_at s = Src_While" and "s_status s = STATUS_RUNNING" and "\<not> returned s"
    and "s' = run area [Source r, Source (Inl rc)] s"
  shows "s_tail s' = s_tail s \<and> s_frameQueue s' = s_frameQueue s
         \<and> s_expectedFrameNumber s' = s_expectedFrameNumber s
         \<and> s_status s' = STATUS_RUNNING
         \<and> source_at s' = Src_While \<and> source_at (step area (Source r') s') = Src_Acquire
         \<and> calls s' = Printf ''Could not get a frame.  RC:0x%08X'' [rc]
                         # GetNextFrame (s_tail s) (s_frameSize s) (Inl rc) # calls s
         \<and> s' = s\<lparr> source_pFrame := s_tail s, calls := calls s' \<rparr>"
proof -
  have "inv_launch s"
    using iw_inv_reachable [of area evs] assms(1) by (simp add: iw_inv_def)
  then have t: "s_tail s < 16" by (simp add: inv_launch_def)
  show ?thesis
    using assms(2-5) tail_back [OF t]
    by (simp add: step_def returned_def source_step_def log_def Let_def)
qed

theorem acquire_failure_recycles_slot_witness:
  "source_at (run whole_area streaming iw_initial) = Src_While
   \<and> s_status (run whole_area streaming iw_initial) = STATUS_RUNNING
   \<and> \<not> returned (run whole_area streaming iw_initial)
   \<and> s_tail (run whole_area (streaming @ [Source (Inl 0), Source (Inl 0x90000005)]) iw_initial)
       = s_tail (run whole_area streaming iw_initial)
   \<and> source_at (run whole_area (streaming @ [Source (Inl 0), Source (Inl 0x90000005)]) iw_initial)
       = Src_While"
proof -
  have a: "source_at (run whole_area streaming iw_initial) = Src_While"
    and b: "s_status (run whole_area streaming iw_initial) = STATUS_RUNNING"
    and c: "\<not> returned (run whole_area streaming iw_initial)"
    by (simp_all add: iw_defs ex_defs)
  from acquire_failure_recycles_slot [OF refl a b c refl, of "Inl 0" "0x90000005"] a b c
  show ?thesis by (simp add: run_append)
qed

subsection \<open>The backpressure trip\<close>

lemma launched_step: "\<not> before_launch s \<Longrightarrow> \<not> before_launch (step area ev s)"
proof (cases ev)
  case (Main e)
  assume "\<not> before_launch s"
  with Main show ?thesis
    by (cases "main_at s") (auto simp: step_def before_launch_def main_step_def log_def)
next
  case (Source r)
  assume "\<not> before_launch s"
  with Source show ?thesis
    by (cases "source_at s")
       (auto simp: step_def before_launch_def source_step_def log_def Let_def split: sum.splits)
next
  case (Sink e)
  assume "\<not> before_launch s"
  with Sink show ?thesis
    by (cases "sink_at s")
       (auto simp: step_def before_launch_def sink_step_def log_def Let_def split: list.splits)
qed

lemma source_exit_step:
  assumes "\<not> before_launch s" and "source_at s = Src_Exit"
  shows "source_at (step area ev s) = Src_Exit
         \<and> acquires (calls (step area ev s)) = acquires (calls s)"
proof (cases ev)
  case (Main e)
  with assms show ?thesis
    by (cases "main_at s") (auto simp: step_def before_launch_def main_step_def log_def)
next
  case (Source r)
  with assms show ?thesis by (simp add: step_def source_step_def)
next
  case (Sink e)
  with assms show ?thesis
    by (cases "sink_at s")
       (auto simp: step_def sink_step_def log_def Let_def split: list.splits)
qed

lemma source_exit_run:
  "\<not> before_launch s \<Longrightarrow> source_at s = Src_Exit \<Longrightarrow>
   source_at (run area evs s) = Src_Exit
   \<and> acquires (calls (run area evs s)) = acquires (calls s)"
proof (induction evs arbitrary: s)
  case Nil
  then show ?case by simp
next
  case (Cons ev evs)
  from Cons.prems have 1: "\<not> before_launch (step area ev s)"
    and 2: "source_at (step area ev s) = Src_Exit"
    and 3: "acquires (calls (step area ev s)) = acquires (calls s)"
    by (simp_all add: launched_step source_exit_step)
  from Cons.IH [OF 1 2] 3 show ?case by simp
qed

text \<open>
  C1, as the code has it.  In a pass of the capture loop the blocking acquire comes first
  and leaves the status alone; when it has succeeded and the queue then holds at least
  \<open>BUFFER_SIZE - 3\<close> buffers, the next step of the thread sets \<open>STATUS_SINK_OVERRUN\<close>
  and ends the thread without queuing the frame, and whatever runs afterwards,
  \<open>PxLGetNextFrame\<close> is not called again.  When the acquire fails, the pass makes no
  check: the status is unchanged and the thread is back at the loop condition.
\<close>

theorem overrun_trip:
  assumes "s = run area evs iw_initial"
    and "source_at s = Src_Acquire" and "BUFFER_SIZE - 3 \<le> length (s_frameQueue s)"
    and "\<not> returned s"
    and "s1 = step area (Source (Inr d)) s" and "s2 = step area (Source r) s1"
  shows "acquires (calls s1) = Suc (acquires (calls s)) \<and> s_status s1 = s_status s
         \<and> s_status s2 = STATUS_SINK_OVERRUN \<and> source_at s2 = Src_Exit
         \<and> s_frameQueue s2 = s_frameQueue s
         \<and> acquires (calls (run area evs' s2)) = acquires (calls s2)
         \<and> s_status (step area (Source (Inl rc)) s) = s_status s
         \<and> source_at (step area (Source (Inl rc)) s) = Src_While"
proof -
  have "inv_launch s"
    using iw_inv_reachable [of area evs] assms(1) by (simp add: iw_inv_def)
  with assms(2) have l: "\<not> before_launch s" by (auto simp: inv_launch_def)
  have l2: "\<not> before_launch s2"
    unfolding assms(5,6) by (intro launched_step l)
  have one: "acquires (calls s1) = Suc (acquires (calls s)) \<and> s_status s1 = s_status s
      \<and> source_at s1 = Src_Check \<and> s_frameQueue s1 = s_frameQueue s \<and> \<not> returned s1"
    using assms(2,4,5) by (simp add: step_def returned_def source_step_def log_def Let_def)
  then have two: "s_status s2 = STATUS_SINK_OVERRUN \<and> source_at s2 = Src_Exit
      \<and> s_frameQueue s2 = s_frameQueue s"
    using assms(3,6) by (simp add: step_def source_step_def log_def)
  have three: "s_status (step area (Source (Inl rc)) s) = s_status s
      \<and> source_at (step area (Source (Inl rc)) s) = Src_While"
    using assms(2,4) by (simp add: step_def source_step_def log_def Let_def)
  from one two three source_exit_run [OF l2, of area evs'] show ?thesis by simp
qed

theorem overrun_trip_witness:
  "source_at (run whole_area (stalled_sink @ [Source (Inl 0)]) iw_initial) = Src_Acquire
   \<and> BUFFER_SIZE - 3 \<le> length (s_frameQueue (run whole_area (stalled_sink @ [Source (Inl 0)]) iw_initial))
   \<and> \<not> returned (run whole_area (stalled_sink @ [Source (Inl 0)]) iw_initial)
   \<and> s_status (run whole_area (stalled_sink @ [Source (Inl 0), Source (Inr (frame 15)), Source (Inl 0)]) iw_initial) = STATUS_SINK_OVERRUN
   \<and> acquires (calls (run whole_area (stalled_sink @ [Source (Inl 0), Source (Inr (frame 15)), Source (Inl 0)] @ capture 16) iw_initial))
       = acquires (calls (run whole_area (stalled_sink @ [Source (Inl 0), Source (Inr (frame 15)), Source (Inl 0)]) iw_initial))"
proof -
  let ?s = "run whole_area (stalled_sink @ [Source (Inl 0)]) iw_initial"
  have a: "source_at ?s = Src_Acquire"
    and b: "BUFFER_SIZE - 3 \<le> length (s_frameQueue ?s)"
    and c: "\<not> returned ?s"
    by (simp_all add: iw_defs ex_defs)
  from overrun_trip [OF refl a b c refl refl, of "frame 15" "Inl 0" "capture 16"] a b c
  show ?thesis by (simp add: run_append)
qed

text \<open>
  The claim that a pass with 13 buffers queued trips before the next acquire fails: with
  the sink stalled and 13 buffers queued, a pass whose acquire fails has called
  \<open>PxLGetNextFrame\<close> once more and leaves the status \<open>STATUS_RUNNING\<close> and the loop
  going; and a pass whose acquire succeeds has made that call while the status was still
  \<open>STATUS_RUNNING\<close>.
\<close>

theorem overrun_checked_after_acquire:
  "length (s_frameQueue (run whole_area stalled_sink iw_initial)) = 13
   \<and> source_at (run whole_area stalled_sink iw_initial) = Src_While
   \<and> s_status (run whole_area stalled_sink iw_initial) = STATUS_RUNNING
   \<and> acquires (calls (run whole_area stalled_sink iw_initial)) = 14
   \<and> length (s_frameQueue (run whole_area (stalled_sink @ [Source (Inl 0), Source (Inl 0x90000005)]) iw_initial)) = 13
   \<and> source_at (run whole_area (stalled_sink @ [Source (Inl 0), Source (Inl 0x90000005)]) iw_initial) = Src_While
   \<and> s_status (run whole_area (stalled_sink @ [Source (Inl 0), Source (Inl 0x90000005)]) iw_initial) = STATUS_RUNNING
   \<and> acquires (calls (run whole_area (stalled_sink @ [Source (Inl 0), Source (Inl 0x90000005)]) iw_initial)) = 15
   \<and> s_status (run whole_area (stalled_sink @ [Source (Inl 0), Source (Inr (frame 15))]) iw_initial) = STATUS_RUNNING
   \<and> acquires (calls (run whole_area (stalled_sink @ [Source (Inl 0), Source (Inr (frame 15))]) iw_initial)) = 15"
  by (simp add: iw_defs ex_defs)

subsection \<open>The fatal conditions\<close>

text \<open>
  C3, as the code has it.  While the process runs: a failure of the initial acquire, a
  failure of \<open>fopen\<close> and a short write each set \<open>STATUS_ERROR\<close>, a queue of at least
  \<open>BUFFER_SIZE - 3\<close> buffers at the queue check sets \<open>STATUS_SINK_OVERRUN\<close>, and each time
  the thread that found the condition is finished; a finished thread does nothing more;
  and a step of the source or of the sink that changes the status is one of these four.
\<close>

theorem fatal_conditions:
  assumes "\<not> returned s"
  shows "(source_at s = Src_First \<longrightarrow>
            s_status (step area (Source (Inl rc)) s) = STATUS_ERROR
            \<and> source_at (step area (Source (Inl rc)) s) = Src_Exit)
         \<and> (sink_at s = Snk_Open \<and> \<not> fopen_ok e \<longrightarrow>
            s_status (step area (Sink e) s) = STATUS_ERROR
            \<and> sink_at (step area (Sink e) s) = Snk_Exit)
         \<and> (sink_at s = Snk_Write \<and> fwrite_count e < unat (s_frameSize s) \<longrightarrow>
            s_status (step area (Sink e) s) = STATUS_ERROR
            \<and> sink_at (step area (Sink e) s) = Snk_Exit)
         \<and> (source_at s = Src_Check \<and> BUFFER_SIZE - 3 \<le> length (s_frameQueue s) \<longrightarrow>
            s_status (step area (Source r) s) = STATUS_SINK_OVERRUN
            \<and> source_at (step area (Source r) s) = Src_Exit)
         \<and> (source_at s = Src_Exit \<longrightarrow> step area (Source r) s = s)
         \<and> (sink_at s = Snk_Exit \<longrightarrow> step area (Sink e) s = s)
         \<and> (s_status (step area (Source r) s) \<noteq> s_status s \<longrightarrow>
              source_at s = Src_First \<and> isl r
              \<or> source_at s = Src_Check \<and> BUFFER_SIZE - 3 \<le> length (s_frameQueue s))
         \<and> (s_status (step area (Sink e) s) \<noteq> s_status s \<longrightarrow>
              sink_at s = Snk_Open \<and> \<not> fopen_ok e
              \<or> sink_at s = Snk_Write \<and> fwrite_count e < unat (s_frameSize s))"
proof -
  have src: "step area (Source x) s = source_step area x s" for x
    using assms by (simp add: step_def)
  have snk: "step area (Sink e) s = sink_step e s"
    using assms by (simp add: step_def)
  have 1: "source_at s = Src_First \<longrightarrow>
            s_status (source_step area (Inl rc) s) = STATUS_ERROR
            \<and> source_at (source_step area (Inl rc) s) = Src_Exit"
    by (simp add: source_step_def log_def Let_def)
  have 2: "sink_at s = Snk_Open \<and> \<not> fopen_ok e \<longrightarrow>
            s_status (sink_step e s) = STATUS_ERROR \<and> sink_at (sink_step e s) = Snk_Exit"
    by (simp add: sink_step_def log_def)
  have 3: "sink_at s = Snk_Write \<and> fwrite_count e < unat (s_frameSize s) \<longrightarrow>
            s_status (sink_step e s) = STATUS_ERROR \<and> sink_at (sink_step e s) = Snk_Exit"
    by (simp add: sink_step_def log_def Let_def)
  have 4: "source_at s = Src_Check \<and> BUFFER_SIZE - 3 \<le> length (s_frameQueue s) \<longrightarrow>
            s_status (source_step area r s) = STATUS_SINK_OVERRUN
            \<and> source_at (source_step area r s) = Src_Exit"
    by (simp add: source_step_def log_def)
  have 5: "source_at s = Src_Exit \<longrightarrow> source_step area r s = s"
    by (simp add: source_step_def)
  have 6: "sink_at s = Snk_Exit \<longrightarrow> sink_step e s = s"
    by (simp add: sink_step_def)
  have 7: "s_status (source_step area r s) \<noteq> s_status s \<longrightarrow>
              source_at s = Src_First \<and> isl r
              \<or> source_at s = Src_Check \<and> BUFFER_SIZE - 3 \<le> length (s_frameQueue s)"
    by (cases "source_at s")
       (auto simp: source_step_def log_def Let_def split: sum.splits if_splits)
  have 8: "s_status (sink_step e s) \<noteq> s_status s \<longrightarrow>
              sink_at s = Snk_Open \<and> \<not> fopen_ok e
              \<or> sink_at s = Snk_Write \<and> fwrite_count e < unat (s_frameSize s)"
    by (cases "sink_at s")
       (auto simp: sink_step_def log_def Let_def split: list.splits if_splits)
  from 1 2 3 4 5 6 7 8 show ?thesis unfolding src snk by blast
qed

theorem fatal_conditions_witness:
  "\<not> returned (run whole_area startup iw_initial)
   \<and> source_at (run whole_area startup iw_initial) = Src_First
   \<and> sink_at (run whole_area startup iw_initial) = Snk_Open \<and> \<not> fopen_ok no_file
   \<and> s_status (run whole_area (startup @ [Source (Inl 0x90000005)]) iw_initial) = STATUS_ERROR
   \<and> source_at (run whole_area (startup @ [Source (Inl 0x90000005)]) iw_initial) = Src_Exit
   \<and> s_status (run whole_area (startup @ [Sink no_file]) iw_initial) = STATUS_ERROR
   \<and> sink_at (run whole_area (startup @ [Sink no_file]) iw_initial) = Snk_Exit"
proof -
  have a: "\<not> returned (run whole_area startup iw_initial)"
    and b: "source_at (run whole_area startup iw_initial) = Src_First"
    and c: "sink_at (run whole_area startup iw_initial) = Snk_Open" and d: "\<not> fopen_ok no_file"
    by (simp_all add: iw_defs ex_defs)
  from fatal_conditions [OF a, of whole_area "0x90000005" no_file] a b c d
  show ?thesis by (simp add: run_append)
qed

text \<open>
  The four conditions do not set four distinct values: the failed initial acquire, the
  failed \<open>fopen\<close> and the short write all set \<open>STATUS_ERROR\<close>.
\<close>

theorem fatal_statuses_coincide:
  "s_status (run whole_area (startup @ [Source (Inl 0x90000005)]) iw_initial) = STATUS_ERROR
   \<and> s_status (run whole_area (startup @ [Sink no_file]) iw_initial) = STATUS_ERROR
   \<and> sink_at (run whole_area (one_written @ capture 3 @ [Sink full_write, Sink full_write]) iw_initial) = Snk_Write
   \<and> s_status (run whole_area (one_written @ capture 3 @ [Sink full_write, Sink full_write]) iw_initial) = STATUS_RUNNING
   \<and> s_status (run whole_area (one_written @ capture 3 @ [Sink full_write, Sink full_write, Sink short_write]) iw_initial) = STATUS_ERROR"
  by (simp add: iw_defs ex_defs)

subsection \<open>The ring file\<close>

text \<open>
  C7.  In every reachable state in which the sink has not finished, the position in the
  output file is \<open>k mod MAX_IMAGES\<close> frames from its start, where \<open>k\<close> is the number of
  frames written in full so far, and the per-file counter is \<open>k mod MAX_IMAGES\<close> (so the
  position is back at the start exactly when the counter has reached \<open>MAX_IMAGES\<close>); and in
  every reachable state the file is at most \<open>MAX_IMAGES\<close> frames long.
\<close>

theorem ring_file_bound:
  assumes "s = run area evs iw_initial"
  shows "(sink_at s \<noteq> Snk_Exit \<longrightarrow>
            file_pos s = (frames_written (calls s) mod unat MAX_IMAGES) * unat (s_frameSize s)
            \<and> unat (numFramesInFile s) = frames_written (calls s) mod unat MAX_IMAGES)
         \<and> file_size s \<le> unat MAX_IMAGES * unat (s_frameSize s)"
proof -
  have "inv_file s"
    using iw_inv_reachable [of area evs] assms by (simp add: iw_inv_def)
  then show ?thesis by (simp add: inv_file_def)
qed

theorem ring_file_bound_witness:
  "sink_at (run whole_area wrapped iw_initial) \<noteq> Snk_Exit
   \<and> frames_written (calls (run whole_area wrapped iw_initial)) = 33
   \<and> file_pos (run whole_area wrapped iw_initial) = (33 mod 32) * 307200
   \<and> file_size (run whole_area wrapped iw_initial) \<le> 32 * 307200"
  using ring_file_bound [OF refl, of whole_area wrapped] wrapped_state
  by (simp add: MAX_IMAGES_def sink_view_def)

subsection \<open>The length of a frame record\<close>

text \<open>
  C9.  In every run each \<open>fwrite\<close> asks for the number of bytes computed from the width and
  the height in the descriptor of the first frame captured, whatever descriptors the later
  frames carry, and the record it leaves has exactly that length, unless the write came
  short: then it is the last write of the run, the sink has finished and the status is no
  longer \<open>STATUS_RUNNING\<close>.  The write itself, when it is due: with the full count stored
  the sink goes back to its loop and the status is untouched, and with less it sets
  \<open>STATUS_ERROR\<close> and finishes.
\<close>

theorem frame_length_fixed_by_first_frame:
  assumes "s = run area evs iw_initial"
  shows "(\<forall>later p count n earlier.
            calls s = later @ Fwrite p count n # earlier \<longrightarrow>
            (\<exists>d. first_frame (calls s) = Some d
                 \<and> count = area (Roi_fWidth d) (Roi_fHeight d)
                 \<and> (n = unat count
                    \<or> n < unat count \<and> (\<forall>p' c' n'. Fwrite p' c' n' \<notin> set later)
                      \<and> sink_at s = Snk_Exit \<and> s_status s \<noteq> STATUS_RUNNING)))
         \<and> (sink_at s = Snk_Write \<and> \<not> returned s \<longrightarrow>
            (\<exists>d. first_frame (calls s) = Some d
                 \<and> (let count = area (Roi_fWidth d) (Roi_fHeight d);
                         n = min (fwrite_count e) (unat count);
                         s' = step area (Sink e) s
                     in first_frame (calls s') = Some d
                        \<and> (if n = unat count
                           then (calls s' = Fwrite (sink_pFrame s) count n # calls s
                                 \<or> calls s' = Fseek_start # Fwrite (sink_pFrame s) count n # calls s)
                                \<and> sink_at s' = Snk_While \<and> s_status s' = s_status s
                           else (\<exists>later. calls s' = later @ Fwrite (sink_pFrame s) count n # calls s)
                                \<and> sink_at s' = Snk_Exit \<and> s_status s' = STATUS_ERROR))))"
proof (intro conjI allI impI)
  fix later p count n earlier
  assume c: "calls s = later @ Fwrite p count n # earlier"
  have f: "inv_frames area s"
    using iw_inv_reachable [of area evs] assms by (simp add: iw_inv_def)
  have w: "inv_writes s"
    using inv_writes_reachable [of area evs] assms by simp
  from c have m: "Fwrite p count n \<in> set (calls s)" by simp
  from f m obtain d where d: "first_frame (calls s) = Some d"
    and a: "count = area (Roi_fWidth d) (Roi_fHeight d)" and le: "n \<le> unat count"
    by (auto simp: inv_frames_def split: option.splits)
  show "\<exists>d. first_frame (calls s) = Some d
            \<and> count = area (Roi_fWidth d) (Roi_fHeight d)
            \<and> (n = unat count
               \<or> n < unat count \<and> (\<forall>p' c' n'. Fwrite p' c' n' \<notin> set later)
                 \<and> sink_at s = Snk_Exit \<and> s_status s \<noteq> STATUS_RUNNING)"
  proof (cases "n = unat count")
    case True
    with d a show ?thesis by simp
  next
    case False
    from w c have "earlier_writes_full (later @ Fwrite p count n # earlier)"
      by (simp add: inv_writes_def)
    from short_write_is_last [OF this False] w c
    have "(\<forall>p' c' n'. Fwrite p' c' n' \<notin> set later)
          \<and> sink_at s = Snk_Exit \<and> s_status s \<noteq> STATUS_RUNNING"
      by (simp add: inv_writes_def)
    with d a le False show ?thesis by simp
  qed
next
  assume h: "sink_at s = Snk_Write \<and> \<not> returned s"
  have f: "inv_frames area s"
    using iw_inv_reachable [of area evs] assms by (simp add: iw_inv_def)
  from f h obtain d where d: "first_frame (calls s) = Some d"
    and a: "s_frameSize s = area (Roi_fWidth d) (Roi_fHeight d)"
    by (auto simp: inv_frames_def split: option.splits)
  from h d a
  have "let count = area (Roi_fWidth d) (Roi_fHeight d);
            n = min (fwrite_count e) (unat count);
            s' = step area (Sink e) s
        in first_frame (calls s') = Some d
           \<and> (if n = unat count
              then (calls s' = Fwrite (sink_pFrame s) count n # calls s
                    \<or> calls s' = Fseek_start # Fwrite (sink_pFrame s) count n # calls s)
                   \<and> sink_at s' = Snk_While \<and> s_status s' = s_status s
              else (\<exists>later. calls s' = later @ Fwrite (sink_pFrame s) count n # calls s)
                   \<and> sink_at s' = Snk_Exit \<and> s_status s' = STATUS_ERROR)"
    by (simp add: step_def sink_step_def log_def Let_def)
  with d show "\<exists>d. first_frame (calls s) = Some d
       \<and> (let count = area (Roi_fWidth d) (Roi_fHeight d);
               n = min (fwrite_count e) (unat count);
               s' = step area (Sink e) s
           in first_frame (calls s') = Some d
              \<and> (if n = unat count
                 then (calls s' = Fwrite (sink_pFrame s) count n # calls s
                       \<or> calls s' = Fseek_start # Fwrite (sink_pFrame s) count n # calls s)
                      \<and> sink_at s' = Snk_While \<and> s_status s' = s_status s
                 else (\<exists>later. calls s' = later @ Fwrite (sink_pFrame s) count n # calls s)
                      \<and> sink_at s' = Snk_Exit \<and> s_status s' = STATUS_ERROR))"
    by blast
qed

theorem frame_length_fixed_by_first_frame_witness:
  "calls (run whole_area short_written iw_initial)
     = [Fclose, Printf ''Error:  Could not write to %d bytes to the data file.'' [307200]]
       @ Fwrite 1 307200 100
       # [GetNextFrame 1 307200 (Inr (frame 3)), Fwrite 0 307200 307200,
          GetNextFrame 0 307200 (Inr (big_frame 2)), Fopen True,
          GetNextFrame 0 26214400 (Inr (frame 1)), Printf ''Capturing image data'' []]
   \<and> first_frame (calls (run whole_area short_written iw_initial)) = Some (frame 1)
   \<and> (307200 :: U32) = whole_area (Roi_fWidth (frame 1)) (Roi_fHeight (frame 1))
   \<and> (100 :: nat) < unat (307200 :: U32)
   \<and> sink_at (run whole_area short_written iw_initial) = Snk_Exit
   \<and> s_status (run whole_area short_written iw_initial) \<noteq> STATUS_RUNNING
   \<and> sink_at (run whole_area write_pending iw_initial) = Snk_Write
   \<and> \<not> returned (run whole_area write_pending iw_initial)
   \<and> s_status (run whole_area write_pending iw_initial) = STATUS_RUNNING
   \<and> s_status (step whole_area (Sink short_write) (run whole_area write_pending iw_initial))
       = STATUS_ERROR
   \<and> sink_at (step whole_area (Sink short_write) (run whole_area write_pending iw_initial))
       = Snk_Exit"
proof -
  let ?s = "run whole_area short_written iw_initial"
  let ?t = "run whole_area write_pending iw_initial"
  have c: "calls ?s
     = [Fclose, Printf ''Error:  Could not write to %d bytes to the data file.'' [307200]]
       @ Fwrite 1 307200 100
       # [GetNextFrame 1 307200 (Inr (frame 3)), Fwrite 0 307200 307200,
          GetNextFrame 0 307200 (Inr (big_frame 2)), Fopen True,
          GetNextFrame 0 26214400 (Inr (frame 1)), Printf ''Capturing image data'' []]"
    by (simp add: iw_defs ex_defs)
  have f: "first_frame (calls ?s) = Some (frame 1)"
    by (simp add: c)
  have p: "sink_at ?t = Snk_Write \<and> \<not> returned ?t"
    and r: "s_status ?t = STATUS_RUNNING"
    and g: "first_frame (calls ?t) = Some (frame 1)"
    by (simp_all add: iw_defs ex_defs)
  have n: "(100 :: nat) < unat (307200 :: U32)"
    and a: "(307200 :: U32) = whole_area (Roi_fWidth (frame 1)) (Roi_fHeight (frame 1))"
    by (simp_all add: whole_area_def frame_def)
  from frame_length_fixed_by_first_frame [OF refl, of whole_area short_written] c f n
  have "sink_at ?s = Snk_Exit \<and> s_status ?s \<noteq> STATUS_RUNNING"
    by fastforce
  moreover
  from frame_length_fixed_by_first_frame [OF refl, of whole_area write_pending short_write] p g
  have "s_status (step whole_area (Sink short_write) ?t) = STATUS_ERROR
        \<and> sink_at (step whole_area (Sink short_write) ?t) = Snk_Exit"
    by (simp add: Let_def short_write_def whole_area_def frame_def)
  ultimately show ?thesis using c f n a p r by blast
qed

section \<open>Properties of the configuration files\<close>

text \<open>
  With a GPIO range query that answers \<open>ApiSuccess\<close> and two GPIOs, the writer produces the
  header, one record for each GPIO and one for feature 0, and the reader sets each of them
  to what was recorded.
\<close>

lemma write_two_gpios:
  "WriteConfigFile (gpio_camera (True, 2)) False (Some 68)
     = Inr (True, Some [0x41513879, 0, 3, 1, 1, 2, 1, 5, 1, 1, 2, 2, 5, 0, 1, 1, 7])"
  by code_simp

lemma read_two_gpios:
  "ReadConfigFile (gpio_camera (True, 2))
     (Some [0x41513879, 0, 3, 1, 1, 2, 1, 5, 1, 1, 2, 2, 5, 0, 1, 1, 7]) 68
     = Inr (True, [(1, 1, 2, [1, 5]), (1, 1, 2, [2, 5]), (0, 1, 1, [7])])"
  by code_simp

lemma write_range_failure_assert:
  "WriteConfigFile (gpio_camera (False, 0)) False (Some 48) = Inl Assertion_failed"
  by code_simp

lemma write_range_failure_ndebug:
  "WriteConfigFile (gpio_camera (False, 0)) True (Some 48)
     = Inr (True, Some [0x41513879, 0, 2, 0, 1, 1, 7, 0, 0, 0, 0, 0])"
  by code_simp

lemma set_features_numeral:
  "set_features cam (numeral n) buf off =
     (case set_feature cam buf off of
        Inl e \<Rightarrow> Inl e
      | Inr (made, off') \<Rightarrow>
          (case set_features cam (pred_numeral n) buf off' of
             Inl e \<Rightarrow> Inl e
           | Inr later \<Rightarrow> Inr (made @ later)))"
  by (simp add: numeral_eq_Suc)

lemma read_range_failure:
  "ReadConfigFile (gpio_camera (False, 0))
     (Some [0x41513879, 0, 2, 0, 1, 1, 7, 0, 0, 0, 0, 0]) 48
     = Inr (True, [(0, 1, 1, [7]), (0, 0, 0, [])])"
  by (simp add: ReadConfigFile_def PXL_CONFIG_FILE_MAGIC_NUMBER_def gpio_camera_def
        set_feature_def Let_def set_features_numeral)

subsection \<open>The second pass of the writer on a fresh buffer\<close>

lemma drop_four_more:
  "length xs = k \<Longrightarrow> drop (4 + k) (a # b # c # d # xs @ ys) = ys"
  by (simp add: numeral_eq_Suc)

lemma store_record_fresh:
  assumes full: "answers_in_full cam (f, g)"
    and room: "3 + unat (numParametersSupported cam f) \<le> m"
  shows "store_record cam f (numParametersSupported cam f) g (pre @ replicate m 0, length pre)
         = Inr (pre @ record_words cam (f, g)
                  @ replicate (m - (3 + unat (numParametersSupported cam f))) 0,
                length pre + (3 + unat (numParametersSupported cam f)))"
proof -
  let ?pc = "numParametersSupported cam f"
  obtain flags n ps where rec: "recorded cam (f, g) = (flags, n, ps)"
    by (cases "recorded cam (f, g)")
  from full rec have pc0: "?pc \<noteq> 0" and n: "n = ?pc" and len: "length ps = unat ?pc"
    by (simp_all add: answers_in_full_def)
  from pc0 obtain p' where p: "unat ?pc = Suc p'"
    by (metis not0_implies_Suc unat_eq_zero)
  from room p obtain m' where m: "m = 4 + p' + m'"
    by (metis add.assoc add_Suc_right le_Suc_ex numeral_plus_one plus_1_eq_Suc semiring_norm(2) semiring_norm(8) add.commute)
  have step: "unat (?pc - 1) = p'"
    using p pc0 by (simp add: unat_minus_one)
  have zs: "replicate m (0::U32) = 0 # 0 # 0 # 0 # replicate p' 0 @ replicate m' 0"
    unfolding m by (simp add: replicate_add numeral_eq_Suc)
  have pb: "params_before cam (f, g)
      = (case g of None \<Rightarrow> 0 # replicate p' 0 | Some i \<Rightarrow> float_of cam i # replicate p' 0)"
    by (simp add: params_before_def p Let_def split: option.splits)
  show ?thesis
  proof (cases g)
    case None
    with rec pb have get: "PxLGetFeature cam f ?pc (0 # replicate p' 0) = (flags, n, ps)"
      by (simp add: recorded_def)
    from rec None have rec': "recorded cam (f, None) = (flags, n, ps)" by simp
    show ?thesis
      unfolding store_record_def zs
      using None get len p step
      by (simp add: Let_def list_update_append nth_append record_words_def rec' m
            drop_four_more)
  next
    case (Some i)
    with rec pb have get: "PxLGetFeature cam f ?pc (float_of cam i # replicate p' 0) = (flags, n, ps)"
      by (simp add: recorded_def)
    from rec Some have rec': "recorded cam (f, Some i) = (flags, n, ps)" by simp
    show ?thesis
      unfolding store_record_def zs
      using Some get len p step
      by (simp add: Let_def list_update_append nth_append record_words_def rec' m
            drop_four_more)
  qed
qed

lemma length_record_words:
  "answers_in_full cam r \<Longrightarrow>
   length (record_words cam r) = 3 + unat (numParametersSupported cam (fst r))"
  by (cases "recorded cam r") (simp add: answers_in_full_def record_words_def)

lemma store_records_fresh:
  assumes "\<forall>r \<in> set rs. answers_in_full cam r \<and> fst r = f"
    and "length (words_of cam rs) \<le> m"
  shows "fold_err (\<lambda>r. store_record cam f (numParametersSupported cam f) (snd r)) rs
           (pre @ replicate m 0, length pre)
         = Inr (pre @ words_of cam rs @ replicate (m - length (words_of cam rs)) 0,
                length pre + length (words_of cam rs))"
  using assms
proof (induction rs arbitrary: pre m)
  case Nil
  then show ?case by (simp add: words_of_def)
next
  case (Cons r rs)
  obtain g where r: "r = (f, g)" using Cons.prems(1) by (cases r) auto
  let ?n = "3 + unat (numParametersSupported cam f)"
  from Cons.prems(1) r have full: "answers_in_full cam (f, g)" by simp
  then have len: "length (record_words cam (f, g)) = ?n"
    by (simp add: length_record_words)
  from Cons.prems(2) r len have room: "?n \<le> m"
    and rest: "length (words_of cam rs) \<le> m - ?n"
    by (simp_all add: words_of_def)
  from Cons.prems(1) have all: "\<forall>r \<in> set rs. answers_in_full cam r \<and> fst r = f" by simp
  have "fold_err (\<lambda>r. store_record cam f (numParametersSupported cam f) (snd r)) (r # rs)
           (pre @ replicate m 0, length pre)
        = fold_err (\<lambda>r. store_record cam f (numParametersSupported cam f) (snd r)) rs
           ((pre @ record_words cam (f, g)) @ replicate (m - ?n) 0,
            length (pre @ record_words cam (f, g)))"
    using store_record_fresh [OF full room, of pre] by (simp add: r len)
  also have "\<dots> = Inr ((pre @ record_words cam (f, g)) @ words_of cam rs
                      @ replicate (m - ?n - length (words_of cam rs)) 0,
                    length (pre @ record_words cam (f, g)) + length (words_of cam rs))"
    by (rule Cons.IH [OF all rest])
  finally show ?case
    by (simp add: r len words_of_def add.assoc)
qed

lemma fold_err_map: "fold_err h (map k xs) st = fold_err (\<lambda>x. h (k x)) xs st"
  by (induction xs arbitrary: st) (simp_all split: sum.splits)

lemma fst_records1: "r \<in> set (records1 cam f) \<Longrightarrow> fst r = f"
  by (auto simp: records1_def split: if_splits)

lemma store_feature_records:
  assumes "gpio_recorded cam f \<longrightarrow> numGpios = snd (getGpioRange cam)"
  shows "store_feature cam numGpios f st
         = fold_err (\<lambda>r. store_record cam f (numParametersSupported cam f) (snd r))
             (records1 cam f) st"
  using assms
  by (auto simp: store_feature_def records1_def gpio_recorded_def Let_def fold_err_map
           split: sum.splits)

lemma words_of_append: "words_of cam (rs @ rs') = words_of cam rs @ words_of cam rs'"
  by (simp add: words_of_def)

lemma store_features_fresh:
  assumes "\<forall>r \<in> set (concat (map (records1 cam) fs)). answers_in_full cam r"
    and "length (words_of cam (concat (map (records1 cam) fs))) \<le> m"
    and "\<forall>f \<in> set fs. gpio_recorded cam f \<longrightarrow> numGpios = snd (getGpioRange cam)"
  shows "fold_err (store_feature cam numGpios) fs (pre @ replicate m 0, length pre)
         = Inr (pre @ words_of cam (concat (map (records1 cam) fs))
                  @ replicate (m - length (words_of cam (concat (map (records1 cam) fs)))) 0,
                length pre + length (words_of cam (concat (map (records1 cam) fs))))"
  using assms
proof (induction fs arbitrary: pre m)
  case Nil
  then show ?case by (simp add: words_of_def)
next
  case (Cons f fs)
  let ?w = "words_of cam (records1 cam f)"
  let ?ws = "words_of cam (concat (map (records1 cam) fs))"
  from Cons.prems(1) have here: "\<forall>r \<in> set (records1 cam f). answers_in_full cam r \<and> fst r = f"
    and later: "\<forall>r \<in> set (concat (map (records1 cam) fs)). answers_in_full cam r"
    by (auto dest: fst_records1)
  from Cons.prems(2) have room: "length ?w \<le> m" and rest: "length ?ws \<le> m - length ?w"
    by (simp_all add: words_of_append)
  from Cons.prems(3) have g1: "gpio_recorded cam f \<longrightarrow> numGpios = snd (getGpioRange cam)"
    and g2: "\<forall>f \<in> set fs. gpio_recorded cam f \<longrightarrow> numGpios = snd (getGpioRange cam)"
    by auto
  have "fold_err (store_feature cam numGpios) (f # fs) (pre @ replicate m 0, length pre)
        = fold_err (store_feature cam numGpios) fs
            ((pre @ ?w) @ replicate (m - length ?w) 0, length (pre @ ?w))"
    using store_records_fresh [OF here room, of pre]
    by (simp add: store_feature_records [OF g1])
  also have "\<dots> = Inr ((pre @ ?w) @ ?ws @ replicate (m - length ?w - length ?ws) 0,
                       length (pre @ ?w) + length ?ws)"
    by (rule Cons.IH [OF later rest g2])
  finally show ?case
    by (simp add: words_of_append add.assoc)
qed

subsection \<open>The first pass of the writer\<close>

lemma word_pred_of_nat:
  fixes w :: U32
  assumes "w \<noteq> 0"
  shows "of_nat (unat w - Suc 0) = w - 1"
proof -
  have "unat (w - 1) = unat w - Suc 0" using assms by (simp add: unat_minus_one)
  then have "of_nat (unat w - Suc 0) = (of_nat (unat (w - 1)) :: U32)" by simp
  then show ?thesis by simp
qed

lemma count_feature_records:
  assumes gp: "gpio_recorded cam f \<longrightarrow> fst (getGpioRange cam) \<and> 0 \<le> snd (getGpioRange cam)"
    and nz: "\<forall>r \<in> set (records1 cam f). numParametersSupported cam (fst r) \<noteq> 0"
  shows "count_feature cam f (a, b, c)
         = (a + of_nat (length (records1 cam f)),
            b + of_nat (extra_params cam (records1 cam f)),
            if gpio_recorded cam f then snd (getGpioRange cam) else c)"
proof (cases "supported cam f \<and> f \<noteq> FEATURE_MEMORY_CHANNEL cam")
  case False
  then show ?thesis
    by (auto simp: count_feature_def records1_def extra_params_def gpio_recorded_def)
next
  case sup: True
  show ?thesis
  proof (cases "f = FEATURE_GPIO cam")
    case False
    with sup nz have "numParametersSupported cam f \<noteq> 0" by (simp add: records1_def)
    with False sup show ?thesis
      by (simp add: count_feature_def records1_def extra_params_def gpio_recorded_def
            word_pred_of_nat)
  next
    case True
    with sup gp have ok: "fst (getGpioRange cam)" and pos: "0 \<le> snd (getGpioRange cam)"
      by (simp_all add: gpio_recorded_def)
    let ?n = "snd (getGpioRange cam)"
    have recs: "records1 cam f = map (\<lambda>g. (f, Some g)) [1..?n]"
      using True sup by (simp add: records1_def)
    have len: "length (records1 cam f) = nat ?n" by (simp add: recs)
    have ex: "extra_params cam (records1 cam f)
        = nat ?n * (unat (numParametersSupported cam f) - 1)"
      by (simp add: recs extra_params_def comp_def sum_list_triv)
    have n: "(of_int ?n :: U32) = of_nat (nat ?n)" using pos by simp
    have prod: "(of_nat (nat ?n) :: U32) * (numParametersSupported cam f - 1)
        = of_nat (nat ?n) * of_nat (unat (numParametersSupported cam f) - Suc 0)"
    proof (cases "?n = 0")
      case True
      then show ?thesis by simp
    next
      case False
      with pos have "1 \<in> set [1..?n]" by simp
      then have "(f, Some 1) \<in> set (records1 cam f)" by (simp add: recs)
      with nz have "numParametersSupported cam f \<noteq> 0" by fastforce
      then show ?thesis by (simp add: word_pred_of_nat)
    qed
    have cf: "count_feature cam f (a, b, c)
        = (a + of_int ?n, b + of_int ?n * (numParametersSupported cam f - 1), ?n)"
      using True sup ok by (simp add: count_feature_def)
    have gr: "gpio_recorded cam f" using True sup by (simp add: gpio_recorded_def)
    show ?thesis
      unfolding cf by (simp add: gr len ex prod n)
  qed
qed

lemma count_features_records:
  assumes gp: "\<forall>f \<in> set fs. gpio_recorded cam f \<longrightarrow>
                 fst (getGpioRange cam) \<and> 0 \<le> snd (getGpioRange cam)"
    and nz: "\<forall>r \<in> set (concat (map (records1 cam) fs)).
                 numParametersSupported cam (fst r) \<noteq> 0"
  shows "foldl (\<lambda>acc f. count_feature cam f acc) (a, b, c) fs
         = (a + of_nat (length (concat (map (records1 cam) fs))),
            b + of_nat (extra_params cam (concat (map (records1 cam) fs))),
            if \<exists>f \<in> set fs. gpio_recorded cam f then snd (getGpioRange cam) else c)"
  using assms
proof (induction fs arbitrary: a b c)
  case Nil
  then show ?case by (simp add: extra_params_def)
next
  case (Cons f fs)
  from Cons.prems have 1: "gpio_recorded cam f \<longrightarrow>
        fst (getGpioRange cam) \<and> 0 \<le> snd (getGpioRange cam)"
    and 2: "\<forall>r \<in> set (records1 cam f). numParametersSupported cam (fst r) \<noteq> 0"
    and 3: "\<forall>f \<in> set fs. gpio_recorded cam f \<longrightarrow>
        fst (getGpioRange cam) \<and> 0 \<le> snd (getGpioRange cam)"
    and 4: "\<forall>r \<in> set (concat (map (records1 cam) fs)).
        numParametersSupported cam (fst r) \<noteq> 0"
    by auto
  show ?case
    by (simp add: count_feature_records [OF 1 2] Cons.IH [OF 3 4] extra_params_def
          add.assoc)
qed

subsection \<open>The loop of the reader on the records\<close>

lemma unat_feature_id: "f < 2 ^ 32 \<Longrightarrow> unat (of_nat f :: U32) = f"
  by (simp add: unat_of_nat)

lemma set_feature_record:
  assumes full: "answers_in_full cam r" and small: "fst r < 2 ^ 32"
    and mc: "fst r \<noteq> FEATURE_MEMORY_CHANNEL cam"
  shows "set_feature cam (pre @ record_words cam r @ post) (length pre)
         = Inr (if manualSupported cam (fst r) then [set_call_of cam r] else [],
                length pre + length (record_words cam r))"
proof -
  let ?pc = "numParametersSupported cam (fst r)"
  obtain flags n ps where rec: "recorded cam r = (flags, n, ps)"
    by (cases "recorded cam r")
  from full rec have pc0: "?pc \<noteq> 0" and n: "n = ?pc" and len: "length ps = unat ?pc"
    by (simp_all add: answers_in_full_def)
  have step: "Suc (unat (?pc - 1)) = unat ?pc"
    using pc0 by (simp add: unat_minus_one unat_gt_0)
  have words: "record_words cam r = of_nat (fst r) # flags # ?pc # ps"
    by (simp add: record_words_def rec n)
  have next_off: "length pre + 4 + unat (?pc - 1) = length pre + (3 + unat ?pc)"
    using step by simp
  have params: "take (unat ?pc) (drop (length pre + 3) (pre @ of_nat (fst r) # flags # ?pc # ps @ post)) = ps"
    by (simp add: len numeral_eq_Suc)
  show ?thesis
    unfolding set_feature_def words
    using mc params next_off
    by (simp add: Let_def nth_append unat_feature_id [OF small] set_call_of_def rec n len)
qed

lemma set_features_records:
  assumes "\<forall>r \<in> set rs. answers_in_full cam r \<and> fst r < 2 ^ 32
             \<and> fst r \<noteq> FEATURE_MEMORY_CHANNEL cam"
  shows "set_features cam (length rs) (pre @ words_of cam rs @ post) (length pre)
         = Inr (set_calls_of cam rs)"
  using assms
proof (induction rs arbitrary: pre)
  case Nil
  then show ?case by (simp add: set_calls_of_def)
next
  case (Cons r rs)
  from Cons.prems have full: "answers_in_full cam r" and small: "fst r < 2 ^ 32"
    and mc: "fst r \<noteq> FEATURE_MEMORY_CHANNEL cam"
    and rest: "\<forall>r \<in> set rs. answers_in_full cam r \<and> fst r < 2 ^ 32
             \<and> fst r \<noteq> FEATURE_MEMORY_CHANNEL cam"
    by simp_all
  have here: "set_feature cam (pre @ words_of cam (r # rs) @ post) (length pre)
      = Inr (if manualSupported cam (fst r) then [set_call_of cam r] else [],
             length (pre @ record_words cam r))"
    using set_feature_record [OF full small mc, of pre "words_of cam rs @ post"]
    by (simp add: words_of_def)
  have later: "set_features cam (length rs) (pre @ words_of cam (r # rs) @ post)
        (length (pre @ record_words cam r)) = Inr (set_calls_of cam rs)"
    using Cons.IH [OF rest, of "pre @ record_words cam r"] by (simp add: words_of_def)
  show ?case
    by (simp only: length_Cons set_features.simps here later sum.case prod.case)
       (simp add: set_calls_of_def)
qed

subsection \<open>The round trip with a well-behaved camera\<close>

lemma length_words_of:
  "\<forall>r \<in> set rs. answers_in_full cam r \<Longrightarrow>
   length (words_of cam rs) = 4 * length rs + extra_params cam rs"
proof (induction rs)
  case Nil
  then show ?case by (simp add: words_of_def extra_params_def)
next
  case (Cons r rs)
  then have "numParametersSupported cam (fst r) \<noteq> 0" by (simp add: answers_in_full_def)
  then have "0 < unat (numParametersSupported cam (fst r))" by (simp add: unat_gt_0)
  with Cons show ?case
    by (simp add: words_of_def extra_params_def length_record_words)
qed

lemma records_rev:
  "length (concat (map (records1 cam) (rev fs))) = length (concat (map (records1 cam) fs))"
  "extra_params cam (concat (map (records1 cam) (rev fs)))
     = extra_params cam (concat (map (records1 cam) fs))"
  "set (concat (map (records1 cam) (rev fs))) = set (concat (map (records1 cam) fs))"
  by (induction fs) (auto simp: extra_params_def)

lemma feature_record_facts:
  assumes "r \<in> set (feature_records cam)"
  shows "fst r < FEATURES_TOTAL cam" and "fst r \<noteq> FEATURE_MEMORY_CHANNEL cam"
  using assms by (auto simp: feature_records_def records1_def split: if_splits)

lemma sint_small:
  fixes n :: nat
  assumes "n < 2 ^ 31"
  shows "sint (of_nat n :: U32) = int n" and "unat (of_nat n :: U32) = n"
proof -
  from assms have "n < 2 ^ 32" by simp
  then show u: "unat (of_nat n :: U32) = n" by (simp add: unat_of_nat)
  have "sint (of_nat n :: U32) = signed_take_bit 31 (int n)"
    by (simp add: sint_uint uint_nat u)
  also have "\<dots> = int n"
    using assms by (intro signed_take_bit_int_eq_self) simp_all
  finally show "sint (of_nat n :: U32) = int n" .
qed

text \<open>
  With a well-behaved camera, whatever the flags and the values of its features, the writer
  produces the file of all records of the supported features but the memory channel, and
  the reader, given that file, sets every manually settable feature in it to the recorded
  flags and parameters.
\<close>

lemma config_round_trip:
  assumes wb: "well_behaved cam"
  shows "WriteConfigFile cam ndebug (Some (4 * length (config_file cam)))
           = Inr (True, Some (config_file cam))
         \<and> ReadConfigFile cam (Some (config_file cam)) (4 * length (config_file cam))
           = Inr (True, set_calls_of cam (feature_records cam))"
proof -
  let ?N = "FEATURES_TOTAL cam"
  let ?R = "feature_records cam"
  let ?A = "concat (map (records1 cam) [0..<?N])"
  let ?L = "length (config_file cam)"
  from wb have full: "\<forall>r \<in> set ?R. answers_in_full cam r"
    and gp: "FEATURE_GPIO cam < ?N \<and> gpio_recorded cam (FEATURE_GPIO cam) \<longrightarrow>
           fst (getGpioRange cam) \<and> 0 \<le> snd (getGpioRange cam)"
    and ids: "?N \<le> 2 ^ 32" and small: "4 * ?L < 2 ^ 31"
    by (simp_all add: well_behaved_def)
  have L: "?L = 3 + length (words_of cam ?R)" by (simp add: config_file_def)
  have RA: "length ?R = length ?A" "extra_params cam ?R = extra_params cam ?A" "set ?R = set ?A"
    unfolding feature_records_def by (rule records_rev)+
  have words: "length (words_of cam ?R) = 4 * length ?R + extra_params cam ?R"
    by (rule length_words_of [OF full])

  txt \<open>The first pass.\<close>
  have gp': "\<forall>f \<in> set [0..<?N]. gpio_recorded cam f \<longrightarrow>
                 fst (getGpioRange cam) \<and> 0 \<le> snd (getGpioRange cam)"
    using gp by (auto simp: gpio_recorded_def)
  have nz: "\<forall>r \<in> set ?A. numParametersSupported cam (fst r) \<noteq> 0"
    using full RA(3) by (auto simp: answers_in_full_def)
  have count: "count_features cam
      = (of_nat (length ?R), of_nat (extra_params cam ?R),
         if \<exists>f \<in> set [0..<?N]. gpio_recorded cam f then snd (getGpioRange cam) else 0)"
    unfolding count_features_def
    by (simp add: count_features_records [OF gp' nz] RA)
  define numGpios where
    "numGpios = (if \<exists>f \<in> set [0..<?N]. gpio_recorded cam f then snd (getGpioRange cam) else 0)"
  have gpios: "\<forall>f \<in> set (rev [0..<?N]). gpio_recorded cam f \<longrightarrow> numGpios = snd (getGpioRange cam)"
    by (auto simp: numGpios_def)

  txt \<open>The size of the buffer.\<close>
  have size: "(12 + of_nat (length ?R) * 16 + of_nat (extra_params cam ?R) * 4 :: U32)
      = of_nat (4 * ?L)"
    by (simp add: L words algebra_simps)
  have sz: "sint (of_nat (4 * ?L) :: U32) = int (4 * ?L)" "unat (of_nat (4 * ?L) :: U32) = 4 * ?L"
    using sint_small [OF small] by simp_all
  have header: "(replicate ?L (0::U32))[0 := PXL_CONFIG_FILE_MAGIC_NUMBER, 1 := 0,
        2 := of_nat (length ?R)]
      = [PXL_CONFIG_FILE_MAGIC_NUMBER, 0, of_nat (length ?R)]
        @ replicate (length (words_of cam ?R)) 0"
    by (simp add: L numeral_eq_Suc)

  txt \<open>The second pass.\<close>
  have full': "\<forall>r \<in> set (concat (map (records1 cam) (rev [0..<?N]))). answers_in_full cam r"
    using full by (simp add: feature_records_def)
  have store: "fold_err (store_feature cam numGpios) (rev [0..<?N])
        ([PXL_CONFIG_FILE_MAGIC_NUMBER, 0, of_nat (length ?R)]
           @ replicate (length (words_of cam ?R)) 0, 3)
      = Inr (config_file cam, ?L)"
    using store_features_fresh [OF full' _ gpios,
        of "length (words_of cam ?R)" "[PXL_CONFIG_FILE_MAGIC_NUMBER, 0, of_nat (length ?R)]"]
    by (simp add: feature_records_def config_file_def numeral_3_eq_3)
  have count': "count_features cam
      = (of_nat (length ?R), of_nat (extra_params cam ?R), numGpios)"
    by (simp add: count numGpios_def)
  have quarter: "4 * ?L div 4 = ?L" by simp
  have "\<not> int (4 * ?L) < 0" and "\<not> ?L < 3" using L by simp_all
  then have buffer: "config_buffer cam ndebug = Inr (config_file cam)"
    unfolding config_buffer_def count' prod.case Let_def size sz quarter length_replicate
      header
    by (simp only: if_False store sum.case prod.case length_replicate simp_thms)
  have written: "WriteConfigFile cam ndebug (Some (4 * ?L)) = Inr (True, Some (config_file cam))"
    by (simp add: WriteConfigFile_def buffer)

  txt \<open>Reading the file back.\<close>
  have recs: "\<forall>r \<in> set ?R. answers_in_full cam r \<and> fst r < 2 ^ 32
             \<and> fst r \<noteq> FEATURE_MEMORY_CHANNEL cam"
    using full ids by (auto dest: feature_record_facts)
  have n: "nat (sint (of_nat (length ?R) :: U32)) = length ?R"
  proof -
    have "length ?R < 2 ^ 31" using small words L by simp
    then show ?thesis by (simp add: sint_small)
  qed
  have loop: "set_features cam (length ?R) (config_file cam) 3 = Inr (set_calls_of cam ?R)"
    using set_features_records [OF recs, of "[PXL_CONFIG_FILE_MAGIC_NUMBER, 0, of_nat (length ?R)]" "[]"]
    by (simp add: config_file_def numeral_3_eq_3)
  have third: "config_file cam ! 2 = of_nat (length ?R)"
    by (simp add: config_file_def)
  have pos: "\<not> int (4 * ?L) \<le> 0" using L by simp
  have whole: "take (4 * ?L div 4) (config_file cam) = config_file cam" by simp
  have bytes: "nat (int (4 * ?L)) = 4 * ?L" by simp
  have lens: "\<not> ?L < 1" "\<not> ?L < 2" "\<not> ?L < 3" using L by simp_all
  have first: "config_file cam ! 0 = PXL_CONFIG_FILE_MAGIC_NUMBER"
    and second: "config_file cam ! 1 = 0"
    by (simp_all add: config_file_def)
  have read_back: "ReadConfigFile cam (Some (config_file cam)) (4 * ?L)
      = Inr (True, set_calls_of cam ?R)"
    unfolding ReadConfigFile_def option.case Let_def sz bytes whole
    by (simp only: pos lens first second third n loop if_False simp_thms sum.case)
  from written read_back show ?thesis by simp
qed

lemma well_behaved_two_gpios: "well_behaved (gpio_camera (True, 2))"
  by (simp add: well_behaved_def config_file_def feature_records_def records1_def
        words_of_def record_words_def recorded_def params_before_def answers_in_full_def
        gpio_recorded_def gpio_camera_def upt_rec upto.simps)

text \<open>
  The memory channel is never written and, whatever the file holds, never set.
\<close>

lemma set_feature_spares_memory_channel:
  assumes "set_feature cam buf off = Inr (made, off')"
  shows "\<forall>c \<in> set made. unat (fst c) \<noteq> FEATURE_MEMORY_CHANNEL cam"
  using assms by (auto simp: set_feature_def Let_def split: if_splits)

lemma set_features_spare_memory_channel:
  assumes "set_features cam k buf off = Inr made"
  shows "\<forall>c \<in> set made. unat (fst c) \<noteq> FEATURE_MEMORY_CHANNEL cam"
  using assms
proof (induction k arbitrary: off made)
  case 0
  then show ?case by simp
next
  case (Suc k)
  from Suc.prems obtain here off' later
    where 1: "set_feature cam buf off = Inr (here, off')"
      and 2: "set_features cam k buf off' = Inr later"
      and 3: "made = here @ later"
    by (auto split: sum.splits)
  from set_feature_spares_memory_channel [OF 1] Suc.IH [OF 2] 3 show ?case by auto
qed

lemma memory_channel_never_set:
  assumes "ReadConfigFile cam file numBytesRead = Inr (ok, made)"
  shows "\<forall>c \<in> set made. unat (fst c) \<noteq> FEATURE_MEMORY_CHANNEL cam"
proof (cases "\<exists>k buf. set_features cam k buf 3 = Inr made")
  case True
  then show ?thesis using set_features_spare_memory_channel by blast
next
  case False
  with assms have "made = []"
    by (auto simp: ReadConfigFile_def Let_def split: option.splits if_splits sum.splits)
  then show ?thesis by simp
qed

lemma memory_channel_never_stored:
  "store_feature cam numGpios (FEATURE_MEMORY_CHANNEL cam) st = Inr st"
  by (simp add: store_feature_def)

text \<open>
  C8 fails for a camera that supports the GPIO feature while \<open>getGpioRange\<close> does not answer
  \<open>ApiSuccess\<close> and leaves \<open>numGpios\<close> at 0.  Step 1 of the writer counts one record for the
  GPIO feature, step 4 writes none.  Compiled with the \<open>ASSERT\<close>, the writer stops at it and
  there is no file.  Compiled without, the file announces two records and holds one,
  followed by the zeros of the record never written; the reader takes the zeros for a
  second record of feature 0 and calls \<open>PxLSetFeature\<close> for feature 0 with flags 0 and no
  parameters, and the GPIO feature is not set at all.
\<close>

theorem config_gpio_range_failure:
  "WriteConfigFile (gpio_camera (False, 0)) False (Some 48) = Inl Assertion_failed
   \<and> WriteConfigFile (gpio_camera (False, 0)) True (Some 48)
       = Inr (True, Some [0x41513879, 0, 2, 0, 1, 1, 7, 0, 0, 0, 0, 0])
   \<and> ReadConfigFile (gpio_camera (False, 0))
         (Some [0x41513879, 0, 2, 0, 1, 1, 7, 0, 0, 0, 0, 0]) 48
       = Inr (True, [(0, 1, 1, [7]), (0, 0, 0, [])])"
  using write_range_failure_assert write_range_failure_ndebug read_range_failure
  by (intro conjI)

end
